theory Spec2Isabelle
  imports Complex_Main "HOL-Library.Sublist"
begin

section \<open>JavaScript strings\<close>

text \<open>
  A JavaScript string is a sequence of UTF-16 code units.  A code unit is modelled as a
  natural number and a string as the list of its code units, so \<open>length\<close> is the
  source's \<open>.length\<close>.  String literals of the source are written \<open>js ''...''\<close>.
\<close>

type_synonym jsstr = "nat list"

definition js :: "string \<Rightarrow> jsstr" where
  "js s = map of_char s"

text \<open>\<open>String.prototype.includes\<close>: the argument occurs as a contiguous substring.\<close>

fun js_includes :: "jsstr \<Rightarrow> jsstr \<Rightarrow> bool" where
  "js_includes [] t = (t = [])"
| "js_includes (x # xs) t = (prefix t (x # xs) \<or> js_includes xs t)"

text \<open>\<open>s.split('\n')\<close>: never empty; the empty string splits to one empty line.\<close>

fun split_nl :: "jsstr \<Rightarrow> jsstr list" where
  "split_nl [] = [[]]"
| "split_nl (x # xs) =
     (if x = 10 then [] # split_nl xs
      else (case split_nl xs of [] \<Rightarrow> [[x]] | l # ls \<Rightarrow> (x # l) # ls))"

text \<open>\<open>lines.join('\n')\<close>.\<close>

fun join_nl :: "jsstr list \<Rightarrow> jsstr" where
  "join_nl [] = []"
| "join_nl [l] = l"
| "join_nl (l # ls) = l @ 10 # join_nl ls"

section \<open>Regular expressions\<close>

text \<open>
  The regular expressions of the source use character classes, literal characters,
  sequence, alternation, capture groups, one back-reference, and quantifiers applied to
  single character classes only.  The matcher below is the backtracking matcher of
  ECMAScript restricted to these constructs: alternatives are tried left to right, a
  greedy quantifier tries the longest repetition first, a lazy one the shortest.
\<close>

datatype cls =
    Only char           \<comment> \<open>a literal character\<close>
  | OnlyI char          \<comment> \<open>a literal character under the \<open>i\<close> flag\<close>
  | OneOf string        \<comment> \<open>\<open>[...]\<close>\<close>
  | NotIn string        \<comment> \<open>\<open>[^...]\<close>\<close>
  | Space               \<comment> \<open>\<open>\s\<close>\<close>
  | Word                \<comment> \<open>\<open>\w\<close>\<close>
  | Dot                 \<comment> \<open>\<open>.\<close>\<close>

text \<open>White space and line terminators of ECMAScript, as code units.\<close>

definition is_space :: "nat \<Rightarrow> bool" where
  "is_space c = (c \<in> {9, 10, 11, 12, 13, 32, 160, 5760, 8232, 8233, 8239, 8287, 12288, 65279}
                 \<or> (8192 \<le> c \<and> c \<le> 8202))"

definition is_word :: "nat \<Rightarrow> bool" where
  "is_word c = ((48 \<le> c \<and> c \<le> 57) \<or> (65 \<le> c \<and> c \<le> 90) \<or> (97 \<le> c \<and> c \<le> 122) \<or> c = 95)"

definition is_line_terminator :: "nat \<Rightarrow> bool" where
  "is_line_terminator c = (c = 10 \<or> c = 13 \<or> c = 8232 \<or> c = 8233)"

text \<open>
  Canonicalisation under the \<open>i\<close> flag (without the \<open>u\<close> flag): a code unit is
  upper-cased, except that a non-ASCII code unit is never mapped to an ASCII one.  All
  literal characters of the source's patterns are ASCII, so only the ASCII part of the
  mapping decides a comparison with them; the one back-reference of the source refers
  to a group that matches a quote character.
\<close>

definition canon :: "nat \<Rightarrow> nat" where
  "canon c = (if 97 \<le> c \<and> c \<le> 122 then c - 32 else c)"

fun cls_match :: "cls \<Rightarrow> nat \<Rightarrow> bool" where
  "cls_match (Only ch) c = (c = of_char ch)"
| "cls_match (OnlyI ch) c = (canon c = canon (of_char ch))"
| "cls_match (OneOf s) c = (c \<in> set (js s))"
| "cls_match (NotIn s) c = (c \<notin> set (js s))"
| "cls_match Space c = is_space c"
| "cls_match Word c = is_word c"
| "cls_match Dot c = (\<not> is_line_terminator c)"

datatype re =
    Eps
  | Chr cls
  | Seq re re
  | Alt re re
  | Star cls            \<comment> \<open>greedy \<open>*\<close> on a class\<close>
  | LazyStar cls        \<comment> \<open>lazy \<open>*?\<close> on a class\<close>
  | Group nat re        \<comment> \<open>capture group with its number\<close>
  | Backref nat bool    \<comment> \<open>\<open>\n\<close>; the flag is the pattern's \<open>i\<close> flag\<close>

type_synonym caps = "nat \<Rightarrow> jsstr option"

fun star_greedy :: "cls \<Rightarrow> jsstr \<Rightarrow> (jsstr \<Rightarrow> 'a option) \<Rightarrow> 'a option" where
  "star_greedy c [] k = k []"
| "star_greedy c (x # xs) k =
     (if cls_match c x
      then (case star_greedy c xs k of Some r \<Rightarrow> Some r | None \<Rightarrow> k (x # xs))
      else k (x # xs))"

fun star_lazy :: "cls \<Rightarrow> jsstr \<Rightarrow> (jsstr \<Rightarrow> 'a option) \<Rightarrow> 'a option" where
  "star_lazy c [] k = k []"
| "star_lazy c (x # xs) k =
     (case k (x # xs) of
        Some r \<Rightarrow> Some r
      | None \<Rightarrow> if cls_match c x then star_lazy c xs k else None)"

text \<open>
  \<open>rmatch r s cs k\<close> matches \<open>r\<close> at the start of \<open>s\<close> with captures \<open>cs\<close> and hands
  the rest of the input and the captures to the continuation \<open>k\<close>; \<open>None\<close> makes the
  matcher backtrack.
\<close>

fun rmatch :: "re \<Rightarrow> jsstr \<Rightarrow> caps \<Rightarrow> (jsstr \<Rightarrow> caps \<Rightarrow> 'a option) \<Rightarrow> 'a option" where
  "rmatch Eps s cs k = k s cs"
| "rmatch (Chr c) s cs k =
     (case s of [] \<Rightarrow> None | x # xs \<Rightarrow> if cls_match c x then k xs cs else None)"
| "rmatch (Seq a b) s cs k = rmatch a s cs (\<lambda>s' cs'. rmatch b s' cs' k)"
| "rmatch (Alt a b) s cs k =
     (case rmatch a s cs k of Some r \<Rightarrow> Some r | None \<Rightarrow> rmatch b s cs k)"
| "rmatch (Star c) s cs k = star_greedy c s (\<lambda>s'. k s' cs)"
| "rmatch (LazyStar c) s cs k = star_lazy c s (\<lambda>s'. k s' cs)"
| "rmatch (Group n a) s cs k =
     rmatch a s cs (\<lambda>s' cs'. k s' (cs'(n \<mapsto> take (length s - length s') s)))"
| "rmatch (Backref n ci) s cs k =
     (case cs n of
        None \<Rightarrow> k s cs
      | Some t \<Rightarrow>
          if length t \<le> length s \<and>
             (if ci then map canon (take (length t) s) = map canon t
              else take (length t) s = t)
          then k (drop (length t) s) cs else None)"

definition match_here :: "re \<Rightarrow> jsstr \<Rightarrow> (jsstr \<times> caps) option" where
  "match_here r s = rmatch r s (\<lambda>_. None) (\<lambda>s' cs'. Some (s', cs'))"

text \<open>
  The leftmost match at or after the start of \<open>s\<close>: the number of code units skipped,
  the input left after the match, and the captures.
\<close>

fun find_match :: "re \<Rightarrow> jsstr \<Rightarrow> (nat \<times> jsstr \<times> caps) option" where
  "find_match r [] = (case match_here r [] of None \<Rightarrow> None | Some (s', cs) \<Rightarrow> Some (0, s', cs))"
| "find_match r (x # xs) =
     (case match_here r (x # xs) of
        Some (s', cs) \<Rightarrow> Some (0, s', cs)
      | None \<Rightarrow> (case find_match r xs of None \<Rightarrow> None | Some (n, s', cs) \<Rightarrow> Some (Suc n, s', cs)))"

text \<open>\<open>RegExp.prototype.test\<close> of a pattern without the \<open>g\<close> flag.\<close>

definition test :: "re \<Rightarrow> jsstr \<Rightarrow> bool" where
  "test r s = (find_match r s \<noteq> None)"

text \<open>
  \<open>RegExp.prototype.test\<close> of a pattern with the \<open>g\<close> flag reads and writes the
  pattern object's \<open>lastIndex\<close>: the search starts there, a match stores its end index,
  a failure stores 0.
\<close>

definition test_g :: "re \<Rightarrow> nat \<Rightarrow> jsstr \<Rightarrow> bool \<times> nat" where
  "test_g r lastIndex s =
     (if lastIndex > length s then (False, 0)
      else (case find_match r (drop lastIndex s) of
              None \<Rightarrow> (False, 0)
            | Some (n, s', cs) \<Rightarrow> (True, length s - length s')))"

text \<open>Replacement templates: literal text and \<open>$n\<close>.\<close>

datatype titem = T string | G nat

fun expand :: "titem list \<Rightarrow> caps \<Rightarrow> jsstr" where
  "expand [] cs = []"
| "expand (T s # ts) cs = js s @ expand ts cs"
| "expand (G n # ts) cs = (case cs n of None \<Rightarrow> [] | Some v \<Rightarrow> v) @ expand ts cs"

text \<open>
  \<open>s.replace(r, template)\<close> for a pattern with the \<open>g\<close> flag.  The first argument
  counts the code units still covered by the previous match.  An empty match is
  replaced and the search moves on by one code unit, as \<open>AdvanceStringIndex\<close> does.
\<close>

fun replace_from :: "re \<Rightarrow> titem list \<Rightarrow> nat \<Rightarrow> jsstr \<Rightarrow> jsstr" where
  "replace_from r t (Suc k) (x # xs) = replace_from r t k xs"
| "replace_from r t (Suc k) [] = []"
| "replace_from r t 0 [] =
     (case match_here r [] of None \<Rightarrow> [] | Some (s', cs) \<Rightarrow> expand t cs)"
| "replace_from r t 0 (x # xs) =
     (case match_here r (x # xs) of
        None \<Rightarrow> x # replace_from r t 0 xs
      | Some (s', cs) \<Rightarrow>
          (let len = length (x # xs) - length s' in
           expand t cs @
           (if len = 0 then x # replace_from r t 0 xs else replace_from r t (len - 1) xs)))"

definition replace_g :: "jsstr \<Rightarrow> re \<Rightarrow> titem list \<Rightarrow> jsstr" where
  "replace_g s r t = replace_from r t 0 s"

text \<open>Pattern notation.\<close>

definition seqs :: "re list \<Rightarrow> re" where
  "seqs rs = foldr Seq rs Eps"

definition alts :: "re list \<Rightarrow> re" where
  "alts rs = (case rs of [] \<Rightarrow> Eps | _ \<Rightarrow> foldr Alt (butlast rs) (last rs))"

definition lit :: "string \<Rightarrow> re" where
  "lit s = seqs (map (\<lambda>ch. Chr (Only ch)) s)"

definition liti :: "string \<Rightarrow> re" where
  "liti s = seqs (map (\<lambda>ch. Chr (OnlyI ch)) s)"

definition plus1 :: "cls \<Rightarrow> re" where
  "plus1 c = Seq (Chr c) (Star c)"

definition opt :: "re \<Rightarrow> re" where
  "opt r = Alt r Eps"

definition quotes :: string where
  "quotes = [CHR 0x27, CHR 0x22, CHR 0x60]"


section \<open>The editor extension: pattern catalog, scan and fixes\<close>

datatype severity = Critical | High | Medium | Low

datatype error = TypeError | ReferenceError | SyntaxError | IllegalArgument

record pattern =
  p_type :: jsstr
  p_severity :: severity
  p_regex :: re
  p_description :: jsstr
  p_fix :: jsstr

record Vulnerability =
  v_type :: jsstr
  v_severity :: severity
  v_line :: int
  v_description :: jsstr
  v_fixed_code :: "jsstr option"

text \<open>The patterns of \<open>getVulnerabilityPatterns\<close>; all carry the flags \<open>gi\<close>.\<close>

definition sql_re :: re where
  "sql_re = seqs [liti ''execute'', Star Space, liti ''('', Star Space, Chr (OneOf quotes),
                  Star (NotIn quotes), Chr (OneOf quotes), Star Space, liti ''+'']"

definition password_re :: re where
  "password_re = seqs [Group 1 (alts [liti ''password'', liti ''pwd'', liti ''pass'']),
                       Star Space, liti ''='', Star Space, Chr (OneOf quotes),
                       plus1 (NotIn quotes), Chr (OneOf quotes)]"

definition eval_re :: re where
  "eval_re = seqs [liti ''eval'', Star Space, liti ''('']"

definition innerHTML_re :: re where
  "innerHTML_re = seqs [liti ''innerHTML'', Star Space, liti ''='']"

definition xss_re :: re where
  "xss_re = Alt innerHTML_re (seqs [liti ''document.write'', Star Space, liti ''(''])"

definition crypto_re :: re where
  "crypto_re = seqs [Group 1 (alts [liti ''md5'', liti ''sha1'']), Star Space, liti ''('']"

definition md5_re :: re where
  "md5_re = seqs [liti ''md5'', Star Space, liti ''('']"

definition sha1_re :: re where
  "sha1_re = seqs [liti ''sha1'', Star Space, liti ''('']"

definition pickle_re :: re where
  "pickle_re = seqs [liti ''pickle.load'', opt (liti ''s''), Star Space, liti ''('']"

definition shell_re :: re where
  "shell_re = Alt (seqs [liti ''os.system'', Star Space, liti ''(''])
                  (seqs [liti ''subprocess.call'', Star Space, liti ''(''])"

text \<open>
  The entries that \<open>getVulnerabilityPatterns\<close> builds for a language, in the order of
  the array.
\<close>

definition catalog :: "jsstr \<Rightarrow> pattern list" where
  "catalog language =
     [\<lparr>p_type = js ''SQL Injection'', p_severity = High, p_regex = sql_re,
       p_description = js ''Potential SQL injection vulnerability'',
       p_fix = js ''Use parameterized queries or prepared statements''\<rparr>,
      \<lparr>p_type = js ''Hardcoded Password'', p_severity = High, p_regex = password_re,
       p_description = js ''Hardcoded password detected'',
       p_fix = js ''Use environment variables or secure configuration''\<rparr>,
      \<lparr>p_type = js ''Eval Usage'', p_severity = High, p_regex = eval_re,
       p_description = js ''Use of eval() function is dangerous'',
       p_fix = js ''Use safer alternatives like JSON.parse() or specific parsers''\<rparr>,
      \<lparr>p_type = js ''XSS Vulnerability'', p_severity = Medium, p_regex = xss_re,
       p_description = js ''Potential XSS vulnerability'',
       p_fix = js ''Use textContent or sanitize HTML properly''\<rparr>,
      \<lparr>p_type = js ''Weak Crypto'', p_severity = Medium, p_regex = crypto_re,
       p_description = js ''Weak cryptographic algorithm detected'',
       p_fix = js ''Use stronger algorithms like SHA-256 or bcrypt''\<rparr>]
     @ (if language = js ''python'' then
         [\<lparr>p_type = js ''Pickle Unsafe'', p_severity = High, p_regex = pickle_re,
           p_description = js ''Unsafe pickle usage can lead to code execution'',
           p_fix = js ''Use safe serialization formats like JSON''\<rparr>,
          \<lparr>p_type = js ''Shell Command Injection'', p_severity = High, p_regex = shell_re,
           p_description = js ''Potential shell command injection'',
           p_fix = js ''Use parameterized commands or proper escaping''\<rparr>]
        else [])"

text \<open>
  Every pattern of the catalog is a \<open>RegExp\<close> object with the \<open>g\<close> flag, whose \<open>test\<close>
  reads and writes the object's \<open>lastIndex\<close>.  The objects live in a heap: \<open>cells\<close>
  gives the \<open>lastIndex\<close> of the object at an address, \<open>fresh\<close> is the next unused
  address.  Evaluating a pattern literal creates a new object with \<open>lastIndex = 0\<close>.
\<close>

record heap =
  cells :: "nat \<Rightarrow> nat"
  fresh :: nat

definition set_lastIndex :: "nat \<Rightarrow> nat \<Rightarrow> heap \<Rightarrow> heap" where
  "set_lastIndex a li h = h\<lparr>cells := (cells h)(a := li)\<rparr>"

fun new_regexps :: "pattern list \<Rightarrow> heap \<Rightarrow> (pattern \<times> nat) list \<times> heap" where
  "new_regexps [] h = ([], h)"
| "new_regexps (p # ps) h =
     (case new_regexps ps (h\<lparr>cells := (cells h)(fresh h := 0), fresh := Suc (fresh h)\<rparr>) of
        (qs, h') \<Rightarrow> ((p, fresh h) # qs, h'))"

text \<open>
  \<open>getVulnerabilityPatterns\<close>: each entry comes with the address of the pattern object
  that the call has created for it.
\<close>

definition getVulnerabilityPatterns :: "jsstr \<Rightarrow> heap \<Rightarrow> (pattern \<times> nat) list \<times> heap" where
  "getVulnerabilityPatterns language h = new_regexps (catalog language) h"

text \<open>
  \<open>generateFix\<close>, for the entry \<open>p\<close> whose pattern object is at address \<open>a\<close>.  The
  replacements use pattern literals of their own, so they keep no state.  The branch
  for weak hashes first calls \<open>pattern.regex.test('md5')\<close> on the entry's pattern
  object.  In both of its \<open>return\<close> statements the replacement text is written between
  single quotes with the inner quotes unescaped, \<open>'crypto.createHash('sha256').update('\<close>:
  the text is a string, the identifier \<open>sha256\<close> and a second string.  This is not
  accepted by the parser; as the compiler emits it, the identifier is evaluated as an
  argument of \<open>replace\<close>, and since nothing declares it the branch throws a
  \<open>ReferenceError\<close>.
\<close>

definition generateFix ::
  "jsstr \<Rightarrow> pattern \<Rightarrow> nat \<Rightarrow> jsstr \<Rightarrow> heap \<Rightarrow> (error + jsstr) \<times> heap" where
  "generateFix line p a language h =
     (if p_type p = js ''SQL Injection'' then
        (if language = js ''python''
         then (Inr (replace_g line sql_re
                 [T ''execute(\"SELECT * FROM table WHERE id = ?\", (user_input,))'']), h)
         else (Inr (replace_g line sql_re
                 [T ''execute(\"SELECT * FROM table WHERE id = ?\", [userInput])'']), h))
      else if p_type p = js ''Hardcoded Password'' then
        (Inr (replace_g line password_re [G 1, T '' = process.env.PASSWORD || \"\"'']), h)
      else if p_type p = js ''Eval Usage'' then
        (Inr (replace_g line eval_re [T ''JSON.parse('']), h)
      else if p_type p = js ''XSS Vulnerability'' then
        (Inr (replace_g line innerHTML_re [T ''textContent ='']), h)
      else if p_type p = js ''Weak Crypto'' then
        (case test_g (p_regex p) (cells h a) (js ''md5'') of
           (True, li) \<Rightarrow> (Inl ReferenceError, set_lastIndex a li h)
         | (False, li) \<Rightarrow> (Inl ReferenceError, set_lastIndex a li h))
      else (Inr (js ''// TODO: Fix '' @ p_type p @ js '' vulnerability'' @ [10] @ line), h))"

text \<open>
  The scanning loop of \<open>performScan\<close>: for every line, every catalog entry is tested
  with its own pattern object.  Nothing catches what \<open>generateFix\<close> throws, so it ends
  the loop and the findings collected so far are lost.
\<close>

fun scan_patterns ::
  "jsstr \<Rightarrow> nat \<Rightarrow> jsstr \<Rightarrow> (pattern \<times> nat) list \<Rightarrow> heap
   \<Rightarrow> (error + Vulnerability list) \<times> heap" where
  "scan_patterns language index line [] h = (Inr [], h)"
| "scan_patterns language index line ((p, a) # ps) h =
     (case test_g (p_regex p) (cells h a) line of
        (True, li) \<Rightarrow>
          (case generateFix line p a language (set_lastIndex a li h) of
             (Inl e, h1) \<Rightarrow> (Inl e, h1)
           | (Inr fixed, h1) \<Rightarrow>
               (case scan_patterns language index line ps h1 of
                  (Inl e, h2) \<Rightarrow> (Inl e, h2)
                | (Inr vs, h2) \<Rightarrow>
                    (Inr (\<lparr>v_type = p_type p, v_severity = p_severity p,
                           v_line = int index + 1, v_description = p_description p,
                           v_fixed_code = Some fixed\<rparr> # vs), h2)))
      | (False, li) \<Rightarrow> scan_patterns language index line ps (set_lastIndex a li h))"

fun scan_lines ::
  "jsstr \<Rightarrow> nat \<Rightarrow> jsstr list \<Rightarrow> (pattern \<times> nat) list \<Rightarrow> heap
   \<Rightarrow> (error + Vulnerability list) \<times> heap" where
  "scan_lines language index [] ps h = (Inr [], h)"
| "scan_lines language index (line # rest) ps h =
     (case scan_patterns language index line ps h of
        (Inl e, h1) \<Rightarrow> (Inl e, h1)
      | (Inr vs, h1) \<Rightarrow>
          (case scan_lines language (Suc index) rest ps h1 of
             (Inl e, h2) \<Rightarrow> (Inl e, h2)
           | (Inr ws, h2) \<Rightarrow> (Inr (vs @ ws), h2)))"

text \<open>
  The vulnerabilities \<open>performScan\<close> collects, or what the loop throws: the catalog is
  built by the call, in the heap the call finds.
\<close>

definition scan :: "jsstr list \<Rightarrow> jsstr \<Rightarrow> heap \<Rightarrow> (error + Vulnerability list) \<times> heap" where
  "scan lines language h =
     (case getVulnerabilityPatterns language h of
        (ps, h1) \<Rightarrow> scan_lines language 0 lines ps h1)"

subsection \<open>Applying the fixes\<close>

text \<open>
  One call \<open>editBuilder.replace(new Range(lineIndex, 0, lineIndex, endcol), text)\<close>.
\<close>

record edit =
  e_line :: nat
  e_endcol :: nat
  e_text :: jsstr

text \<open>
  The body of the \<open>editor.edit\<close> callback of \<open>applyFixes\<close>: the calls to
  \<open>editBuilder.replace\<close> in the order they are made.  A fix is skipped when its
  \<open>fixed_code\<close> is absent or empty or when its line index is not below
  \<open>lines.length\<close>; for a negative index \<open>lines[lineIndex]\<close> is \<open>undefined\<close> and
  reading its \<open>length\<close> throws.
\<close>

fun replace_calls :: "jsstr list \<Rightarrow> Vulnerability list \<Rightarrow> error + edit list" where
  "replace_calls lines [] = Inr []"
| "replace_calls lines (vuln # rest) =
     (let lineIndex = v_line vuln - 1 in
      case v_fixed_code vuln of
        None \<Rightarrow> replace_calls lines rest
      | Some fixedLine \<Rightarrow>
          if fixedLine \<noteq> [] \<and> lineIndex < int (length lines) then
            (if lineIndex < 0 then Inl TypeError
             else (case replace_calls lines rest of
                     Inl e \<Rightarrow> Inl e
                   | Inr es \<Rightarrow>
                       Inr (\<lparr>e_line = nat lineIndex,
                             e_endcol = length (lines ! nat lineIndex),
                             e_text = fixedLine\<rparr> # es)))
          else replace_calls lines rest)"

datatype action =
    NoVulnerabilities
  | NoAction
  | Details "Vulnerability list"
  | Edited "edit list"
  | Failed error

text \<open>
  \<open>applyFixes\<close>: \<open>autoFix\<close> is the configuration value, \<open>choice\<close> the button chosen in
  the confirmation dialog (if any).  \<open>Array.prototype.sort\<close> is stable, as is
  \<open>sort_key\<close>; the comparator \<open>b.line - a.line\<close> sorts by descending line.
\<close>

definition applyFixes :: "bool \<Rightarrow> jsstr option \<Rightarrow> Vulnerability list \<Rightarrow> jsstr list \<Rightarrow> action" where
  "applyFixes autoFix choice vulnerabilities lines =
     (if \<not> autoFix \<and> choice \<noteq> Some (js ''Apply All'') then
        (if choice = Some (js ''Review First'') then Details vulnerabilities else NoAction)
      else (case replace_calls lines (sort_key (\<lambda>v. - v_line v) vulnerabilities) of
              Inl e \<Rightarrow> Failed e
            | Inr es \<Rightarrow> Edited es))"

text \<open>
  \<open>performScan\<close>: \<open>choice\<close> is the button chosen in the first dialog, \<open>choice2\<close> the one
  chosen in the dialog of \<open>applyFixes\<close>, \<open>h\<close> the heap the call finds.  The call ends
  with what the scanning loop throws, or with the vulnerabilities found and the action
  taken on them.
\<close>

record scan_outcome =
  found :: "Vulnerability list"
  taken :: action

definition performScan ::
  "bool \<Rightarrow> jsstr option \<Rightarrow> jsstr option \<Rightarrow> jsstr list \<Rightarrow> jsstr \<Rightarrow> heap
   \<Rightarrow> (error + scan_outcome) \<times> heap" where
  "performScan autoFix choice choice2 lines language h =
     (case scan lines language h of
        (Inl e, h1) \<Rightarrow> (Inl e, h1)
      | (Inr vulnerabilities, h1) \<Rightarrow>
          (if length vulnerabilities = 0
           then (Inr \<lparr>found = vulnerabilities, taken = NoVulnerabilities\<rparr>, h1)
           else if autoFix then
             (Inr \<lparr>found = vulnerabilities,
                   taken = applyFixes autoFix choice2 vulnerabilities lines\<rparr>, h1)
           else if choice = Some (js ''Fix All'') then
             (Inr \<lparr>found = vulnerabilities,
                   taken = applyFixes autoFix choice2 vulnerabilities lines\<rparr>, h1)
           else if choice = Some (js ''Show Details'') then
             (Inr \<lparr>found = vulnerabilities, taken = Details vulnerabilities\<rparr>, h1)
           else (Inr \<lparr>found = vulnerabilities, taken = NoAction\<rparr>, h1)))"

text \<open>
  What a caller sees of a scan: the error thrown, or the sequence of findings.
\<close>

definition findings :: "(error + scan_outcome) \<times> heap \<Rightarrow> error + Vulnerability list" where
  "findings r = (case fst r of Inl e \<Rightarrow> Inl e | Inr out \<Rightarrow> Inr (found out))"

text \<open>
  The effect of a list of edits on a document, given as its lines.  An edit replaces the
  columns \<open>0..endcol\<close> of its line by its text, which may itself hold line breaks.
  \<open>apply_in_order\<close> performs the edits one after the other, each on the result of the
  one before; \<open>apply_at_once\<close> performs all of them on the original document, every
  range read in the original's coordinates.
\<close>

definition edited_line :: "edit \<Rightarrow> jsstr \<Rightarrow> jsstr list" where
  "edited_line e l = split_nl (e_text e @ drop (e_endcol e) l)"

definition replace_line :: "jsstr list \<Rightarrow> edit \<Rightarrow> jsstr list" where
  "replace_line doc e =
     (if e_line e < length doc
      then take (e_line e) doc @ edited_line e (doc ! e_line e) @ drop (Suc (e_line e)) doc
      else doc)"

definition apply_in_order :: "jsstr list \<Rightarrow> edit list \<Rightarrow> jsstr list" where
  "apply_in_order doc es = foldl replace_line doc es"

definition apply_at_once :: "jsstr list \<Rightarrow> edit list \<Rightarrow> jsstr list" where
  "apply_at_once doc es =
     concat (map (\<lambda>(i, l). case find (\<lambda>e. e_line e = i) es of
                              None \<Rightarrow> [l]
                            | Some e \<Rightarrow> edited_line e l)
                 (enumerate 0 doc))"

text \<open>
  What a batch of fixes is meant to produce: every line that a fix targets is replaced
  by that fix's text, every other line is kept.
\<close>

definition fixed_text :: "jsstr list \<Rightarrow> Vulnerability list \<Rightarrow> jsstr list" where
  "fixed_text lines vs =
     concat (map (\<lambda>(i, l). case find (\<lambda>v. v_line v = int i + 1) vs of
                              None \<Rightarrow> [l]
                            | Some v \<Rightarrow> (case v_fixed_code v of None \<Rightarrow> [l] | Some t \<Rightarrow> split_nl t))
                 (enumerate 0 lines))"


section \<open>The analysis service of the extension\<close>

text \<open>
  The fields of a SonarQube issue that the code reads.  The items of the dashboard's
  analysis request carry the same fields.
\<close>

record SonarIssue =
  i_key :: jsstr
  i_rule :: jsstr
  i_severity :: jsstr
  i_line :: int
  i_message :: jsstr
  i_type :: jsstr

text \<open>\<open>AIService.calculateConfidence\<close>, one assignment after the other.\<close>

definition calculateConfidence :: "jsstr \<Rightarrow> SonarIssue \<Rightarrow> int" where
  "calculateConfidence code issue =
     (let confidence = 70;
          confidence =
            (if i_severity issue = js ''BLOCKER'' \<or> i_severity issue = js ''CRITICAL''
             then confidence + 15
             else if i_severity issue = js ''MAJOR'' then confidence + 10 else confidence);
          confidence =
            (if js_includes (i_rule issue) (js ''S4784'') \<or> js_includes (i_rule issue) (js ''S5443'')
             then confidence + 10 else confidence);
          confidence = (if length code > 100 then confidence - 5 else confidence)
      in min confidence 95)"

text \<open>
  The rules the code calls well-known patterns, and the confidence as the specification
  words it: baseline 70, plus 15 for a well-known entry, minus 5 for a line longer than
  100, capped at 95.
\<close>

definition well_known :: "SonarIssue \<Rightarrow> bool" where
  "well_known issue =
     (js_includes (i_rule issue) (js ''S4784'') \<or> js_includes (i_rule issue) (js ''S5443''))"

definition claimed_confidence :: "bool \<Rightarrow> nat \<Rightarrow> int" where
  "claimed_confidence wellKnown len =
     min 95 (70 + (if wellKnown then 15 else 0) - (if len > 100 then 5 else 0))"

text \<open>
  \<open>AIService.getCodeContext\<close>: the document is given by its lines; \<open>document.lineAt\<close>
  is only called with indices from \<open>0\<close> up to \<open>lineCount - 1\<close>.
\<close>

definition AIService_getCodeContext :: "jsstr list \<Rightarrow> int \<Rightarrow> jsstr" where
  "AIService_getCodeContext document lineNumber =
     (let start = max 0 (lineNumber - 3);
          stop = min (int (length document)) (lineNumber + 3)
      in join_nl (map (\<lambda>i. document ! i) [nat start ..< nat stop]))"

text \<open>
  \<open>mapSeverity\<close> looks its argument up in an object literal.  A property read on an
  object literal also finds the members the object inherits from \<open>Object.prototype\<close>;
  each of them is a function or an object, hence truthy, and is then what
  \<open>mapping[sonarSeverity] || 'medium'\<close> evaluates to.
\<close>

datatype mapped = Sev severity | Inherited jsstr

definition severity_mapping :: "(jsstr \<times> severity) list" where
  "severity_mapping =
     [(js ''BLOCKER'', Critical), (js ''CRITICAL'', Critical), (js ''MAJOR'', High),
      (js ''MINOR'', Medium), (js ''INFO'', Low)]"

definition object_prototype_members :: "jsstr list" where
  "object_prototype_members =
     map js [''constructor'', ''__defineGetter__'', ''__defineSetter__'', ''hasOwnProperty'',
             ''__lookupGetter__'', ''__lookupSetter__'', ''isPrototypeOf'',
             ''propertyIsEnumerable'', ''toString'', ''valueOf'', ''__proto__'',
             ''toLocaleString'']"

definition mapSeverity :: "jsstr \<Rightarrow> mapped" where
  "mapSeverity sonarSeverity =
     (case map_of severity_mapping sonarSeverity of
        Some v \<Rightarrow> Sev v
      | None \<Rightarrow>
          if sonarSeverity \<in> set object_prototype_members then Inherited sonarSeverity
          else Sev Medium)"

text \<open>
  \<open>generateSuggestedFix\<close> and \<open>generateExplanation\<close> read \<open>table[issue.rule] || fallback\<close>
  from an object literal; as in \<open>mapSeverity\<close>, the read also finds the members
  inherited from \<open>Object.prototype\<close>.  All texts of the tables are non-empty.
\<close>

datatype looked = Text jsstr | Member jsstr

definition lookup_or :: "(string \<times> string) list \<Rightarrow> jsstr \<Rightarrow> string \<Rightarrow> looked" where
  "lookup_or table key fallback =
     (case map_of (map (\<lambda>(k, v). (js k, js v)) table) key of
        Some v \<Rightarrow> Text v
      | None \<Rightarrow> if key \<in> set object_prototype_members then Member key else Text (js fallback))"

definition generateSuggestedFix :: "jsstr \<Rightarrow> SonarIssue \<Rightarrow> jsstr \<Rightarrow> looked" where
  "generateSuggestedFix code issue language =
     lookup_or
       [(''javascript:S4784'',
         ''Replace eval() with safer alternatives like JSON.parse() or specific function calls''),
        (''javascript:S5443'',
         ''Use textContent instead of innerHTML, or sanitize the content before insertion''),
        (''javascript:S2068'',
         ''Move credentials to environment variables or secure configuration files''),
        (''javascript:S2077'',
         ''Use parameterized queries or prepared statements instead of string concatenation'')]
       (i_rule issue) ''Review and implement security best practices for this issue''"

definition generateExplanation :: "SonarIssue \<Rightarrow> jsstr \<Rightarrow> looked" where
  "generateExplanation issue language =
     lookup_or
       [(''javascript:S4784'',
         ''Code injection vulnerabilities allow attackers to execute arbitrary code''),
        (''javascript:S5443'', ''XSS attacks can steal user data and session information''),
        (''javascript:S2068'', ''Hardcoded credentials can be easily extracted from source code''),
        (''javascript:S2077'', ''SQL injection can lead to data breaches and database compromise'')]
       (i_rule issue) ''This security issue should be addressed to protect your application''"

record analysis =
  an_confidence :: int
  an_suggestedFix :: looked
  an_explanation :: looked

text \<open>
  \<open>AIService.analyzeWithAI\<close> computes its answer locally.  Nothing in its \<open>try\<close> block
  throws, so its \<open>catch\<close> block (confidence 50) is not reached and the promise it
  returns is never rejected.
\<close>

definition AIService_analyzeWithAI :: "jsstr \<Rightarrow> SonarIssue \<Rightarrow> jsstr \<Rightarrow> error + analysis" where
  "AIService_analyzeWithAI code issue language =
     Inr \<lparr>an_confidence = calculateConfidence code issue,
          an_suggestedFix = generateSuggestedFix code issue language,
          an_explanation = generateExplanation issue language\<rparr>"

record ServiceVulnerability =
  sv_id :: jsstr
  sv_severity :: mapped
  sv_type :: jsstr
  sv_file :: jsstr
  sv_line :: int
  sv_description :: jsstr
  sv_status :: jsstr
  sv_confidence :: "int option"
  sv_aiFix :: "looked option"
  sv_suggestedFix :: "looked option"

text \<open>
  \<open>AIService.enhanceWithAI\<close>, given what the awaited call of \<open>analyzeWithAI\<close> comes
  to.  The document is given by its lines and its file name.  \<open>document.lineAt\<close> is
  called before the \<open>try\<close> block and throws for an index outside the document.
\<close>

definition enhanceWithAI_given ::
  "jsstr list \<Rightarrow> jsstr \<Rightarrow> SonarIssue \<Rightarrow> error + analysis \<Rightarrow> error + ServiceVulnerability" where
  "enhanceWithAI_given document fileName sonarIssue aiAnalysis =
     (if 1 \<le> i_line sonarIssue \<and> i_line sonarIssue \<le> int (length document) then
        (case aiAnalysis of
           Inr a \<Rightarrow>
             Inr \<lparr>sv_id = i_key sonarIssue, sv_severity = mapSeverity (i_severity sonarIssue),
                  sv_type = i_type sonarIssue, sv_file = fileName, sv_line = i_line sonarIssue,
                  sv_description = i_message sonarIssue, sv_status = js ''detected'',
                  sv_confidence = Some (an_confidence a),
                  sv_aiFix = Some (an_explanation a),
                  sv_suggestedFix = Some (an_suggestedFix a)\<rparr>
         | Inl e \<Rightarrow>
             Inr \<lparr>sv_id = i_key sonarIssue, sv_severity = mapSeverity (i_severity sonarIssue),
                  sv_type = i_type sonarIssue, sv_file = fileName, sv_line = i_line sonarIssue,
                  sv_description = i_message sonarIssue, sv_status = js ''detected'',
                  sv_confidence = Some 70, sv_aiFix = None, sv_suggestedFix = None\<rparr>)
      else Inl IllegalArgument)"

text \<open>\<open>AIService.enhanceWithAI\<close> with the call it makes.\<close>

definition AIService_enhanceWithAI ::
  "jsstr list \<Rightarrow> jsstr \<Rightarrow> jsstr \<Rightarrow> SonarIssue \<Rightarrow> error + ServiceVulnerability" where
  "AIService_enhanceWithAI document fileName languageId sonarIssue =
     enhanceWithAI_given document fileName sonarIssue
       (AIService_analyzeWithAI (document ! nat (i_line sonarIssue - 1)) sonarIssue languageId)"

section \<open>The dashboard's routes\<close>

text \<open>
  Values produced by \<open>JSON.parse\<close>.  No arithmetic is done on the numbers, which are
  kept as reals.
\<close>

datatype json =
    JNull
  | JBool bool
  | JNum real
  | JStr jsstr
  | JArr "json list"
  | JObj "(jsstr \<times> json) list"

text \<open>
  What the request to the completion service and the parsing of its answer come to: the
  call throws, \<open>JSON.parse\<close> throws, or \<open>JSON.parse\<close> returns a value (the value
  \<open>{}\<close> when the answer has no content).
\<close>

datatype completion = CallError | NotJSON | ParsedAs json

text \<open>
  Reading a property of a parsed value: reading from \<open>null\<close> throws, an object gives
  the value of the key (the last one, when the text repeats a key), any other value has
  none of the properties read by the code.
\<close>

definition get_prop :: "json \<Rightarrow> string \<Rightarrow> error + json option" where
  "get_prop j name =
     (case j of
        JNull \<Rightarrow> Inl TypeError
      | JObj kvs \<Rightarrow> Inr (map_of (rev kvs) (js name))
      | _ \<Rightarrow> Inr None)"




text \<open>\<open>Array.prototype.slice(start, end)\<close>.\<close>

definition js_slice :: "'a list \<Rightarrow> int \<Rightarrow> int \<Rightarrow> 'a list" where
  "js_slice xs start stop =
     (let n = int (length xs);
          k = (if start < 0 then max (n + start) 0 else min start n);
          f = (if stop < 0 then max (n + stop) 0 else min stop n)
      in take (nat (f - k)) (drop (nat k) xs))"

text \<open>\<open>getCodeContext\<close> of the fix route and of the analysis route (the same text).\<close>

definition getCodeContext :: "jsstr \<Rightarrow> int \<Rightarrow> int \<Rightarrow> jsstr" where
  "getCodeContext code lineNumber contextLines =
     (let lines = split_nl code;
          start = max 0 (lineNumber - contextLines - 1);
          stop = min (int (length lines)) (lineNumber + contextLines)
      in join_nl (js_slice lines start stop))"

text \<open>The lines \<open>L - 3\<close> to \<open>L + 3\<close> of a text, clipped to \<open>1..n\<close>.\<close>

definition window3 :: "jsstr list \<Rightarrow> int \<Rightarrow> jsstr list" where
  "window3 lines L =
     map (\<lambda>i. lines ! nat (i - 1)) [max 1 (L - 3) .. min (int (length lines)) (L + 3)]"

subsection \<open>The analysis route\<close>






subsection \<open>The fix route\<close>

record FixVulnerability =
  fv_id :: jsstr
  fv_type :: jsstr
  fv_severity :: jsstr
  fv_line :: int
  fv_description :: jsstr
  fv_suggestedFix :: "jsstr option"

record FixResponse =
  r_success :: bool
  r_fixedCode :: "json option"
  r_explanation :: "json option"
  r_confidence :: "json option"
  r_changes :: "json option"

text \<open>The four patterns of \<open>validateFix\<close>; none carries a flag.\<close>

definition vp_eval :: re where
  "vp_eval = seqs [lit ''eval'', Star Space, lit ''('']"

definition vp_innerHTML :: re where
  "vp_innerHTML = seqs [lit ''innerHTML'', Star Space, lit ''='']"

definition vp_password :: re where
  "vp_password = seqs [lit ''password'', Star Space, lit ''='', Star Space, Chr (OneOf quotes),
                       plus1 (NotIn quotes), Chr (OneOf quotes)]"

definition vp_sqlInjection :: re where
  "vp_sqlInjection =
     seqs [Group 1 (alts [lit ''SELECT'', lit ''INSERT'', lit ''UPDATE'', lit ''DELETE'']),
           Star Dot, lit ''+'', Star Dot, Chr (OneOf quotes)]"

definition vulnerabilityPatterns :: "(string \<times> re) list" where
  "vulnerabilityPatterns =
     [(''eval'', vp_eval), (''innerHTML'', vp_innerHTML), (''password'', vp_password),
      (''sqlInjection'', vp_sqlInjection)]"

text \<open>
  \<open>validateFix\<close> returns the issues it found; \<open>isValid\<close> is \<open>issues.length === 0\<close>.
  The calls \<open>fixedCode.trim()\<close> and \<open>fixedCode.split('\n')\<close> throw unless
  \<open>fixedCode\<close> is a string.  \<open>trim\<close> leaves the empty string exactly when every code
  unit is white space.
\<close>

definition validateFix :: "json option \<Rightarrow> jsstr \<Rightarrow> error + jsstr list" where
  "validateFix fixedCode originalCode =
     (case fixedCode of
        Some (JStr f) \<Rightarrow>
          (let originalLines = split_nl originalCode;
               fixedLines = split_nl f
           in Inr
             ((if f = [] \<or> list_all is_space f then [js ''No fixed code provided''] else [])
              @ (if 2 * \<bar>int (length originalLines) - int (length fixedLines)\<bar>
                      > int (length originalLines)
                 then [js ''Fix changes code structure too dramatically''] else [])
              @ concat (map (\<lambda>(patternName, pattern).
                               if test pattern f
                               then [js ''Fix still contains vulnerable pattern: '' @ js patternName]
                               else [])
                            vulnerabilityPatterns)
              @ (if js_includes f (js ''```'') then [js ''Fix contains markdown formatting'']
                 else [])))
      | _ \<Rightarrow> Inl TypeError)"

text \<open>The patterns of the replacements in \<open>generateRuleBasedFix\<close>.\<close>

definition rb_eval :: re where
  "rb_eval = seqs [lit ''eval'', Star Space, lit ''('', Star Space, Group 1 (plus1 (NotIn '')'')),
                   Star Space, lit '')'']"

definition rb_innerHTML :: re where
  "rb_innerHTML = seqs [lit ''.innerHTML'', Star Space, lit ''='']"

definition rb_password :: re where
  "rb_password = seqs [Group 1 (Chr (OneOf quotes)), Star (NotIn quotes), liti ''password'',
                       Star (NotIn quotes), Backref 1 True]"

definition rb_sql :: re where
  "rb_sql =
     seqs [Group 1 (seqs [lit ''SELECT'', plus1 Space, LazyStar Dot, plus1 Space, lit ''FROM'',
                          plus1 Space, plus1 Word, plus1 Space, lit ''WHERE'', plus1 Space,
                          plus1 Word]),
           Star Space, lit ''+'', Star Space, Chr (OneOf quotes),
           Group 2 (plus1 (NotIn quotes)), Chr (OneOf quotes)]"

text \<open>
  The \<open>switch\<close> of \<open>generateRuleBasedFix\<close>: the fixed line, the explanation and the
  confidence.  \<open>targetLine\<close> is \<open>lines[vulnerability.line - 1]\<close>, which is
  \<open>undefined\<close> when the index is out of range; then the eight named cases throw at
  \<open>targetLine.includes\<close>, and the default case writes the text \<open>undefined\<close>.
\<close>

definition rule_based_line ::
  "FixVulnerability \<Rightarrow> jsstr option \<Rightarrow> error + (jsstr \<times> jsstr \<times> int)" where
  "rule_based_line vulnerability targetLine =
     (if fv_type vulnerability = js ''Code Injection'' \<or> fv_type vulnerability = js ''javascript:S4784'' then
        (case targetLine of
           None \<Rightarrow> Inl TypeError
         | Some t \<Rightarrow>
             if js_includes t (js ''eval('')
             then Inr (replace_g t rb_eval [T ''JSON.parse('', G 1, T '')''],
                       js ''Replaced eval() with JSON.parse() to prevent code injection'', 85)
             else Inr (t, [], 70))
      else if fv_type vulnerability = js ''Cross-Site Scripting (XSS)'' \<or> fv_type vulnerability = js ''javascript:S5443'' then
        (case targetLine of
           None \<Rightarrow> Inl TypeError
         | Some t \<Rightarrow>
             if js_includes t (js ''innerHTML'')
             then Inr (replace_g t rb_innerHTML [T ''.textContent =''],
                       js ''Replaced innerHTML with textContent to prevent XSS'', 90)
             else Inr (t, [], 70))
      else if fv_type vulnerability = js ''Hardcoded Credentials'' \<or> fv_type vulnerability = js ''javascript:S2068'' then
        (case targetLine of
           None \<Rightarrow> Inl TypeError
         | Some t \<Rightarrow>
             if js_includes t (js ''password'') \<and> js_includes t (js ''='')
             then Inr (replace_g t rb_password [T ''process.env.PASSWORD''],
                       js ''Replaced hardcoded password with environment variable'', 80)
             else Inr (t, [], 70))
      else if fv_type vulnerability = js ''SQL Injection'' \<or> fv_type vulnerability = js ''javascript:S2077'' then
        (case targetLine of
           None \<Rightarrow> Inl TypeError
         | Some t \<Rightarrow>
             if js_includes t (js ''SELECT'') \<and> js_includes t (js ''+'')
             then Inr (replace_g t rb_sql [G 1, T '' = ?''],
                       js ''Replaced string concatenation with parameterized query'', 85)
             else Inr (t, [], 70))
      else
        Inr (js ''// TODO: Fix security issue - '' @ fv_description vulnerability @ [10]
               @ (case targetLine of None \<Rightarrow> js ''undefined'' | Some t \<Rightarrow> t),
             js ''Added security comment for manual review and fix'', 50))"

text \<open>
  The assignment \<open>lines[index] = v\<close> on an array: within range it replaces the element,
  at or beyond the length it extends the array (the elements in between are holes, which
  \<open>join\<close> writes as empty strings), and a negative index sets a property that is no
  element and that \<open>join\<close> does not see.
\<close>

definition array_set :: "jsstr list \<Rightarrow> int \<Rightarrow> jsstr \<Rightarrow> jsstr list" where
  "array_set lines index v =
     (if index < 0 then lines
      else if index < int (length lines) then lines[nat index := v]
      else lines @ replicate (nat index - length lines) [] @ [v])"

definition generateRuleBasedFix :: "FixVulnerability \<Rightarrow> jsstr \<Rightarrow> jsstr \<Rightarrow> error + FixResponse" where
  "generateRuleBasedFix vulnerability code language =
     (let lines = split_nl code;
          targetLine = (if 1 \<le> fv_line vulnerability \<and> fv_line vulnerability \<le> int (length lines)
                        then Some (lines ! nat (fv_line vulnerability - 1)) else None)
      in case rule_based_line vulnerability targetLine of
           Inl e \<Rightarrow> Inl e
         | Inr (fixedLine, expl, conf) \<Rightarrow>
             Inr \<lparr>r_success = True,
                  r_fixedCode = Some (JStr (join_nl (array_set lines (fv_line vulnerability - 1) fixedLine))),
                  r_explanation = Some (JStr expl),
                  r_confidence = Some (JNum (of_int conf)),
                  r_changes = Some (JArr [JObj
                    ([(js ''line'', JNum (of_int (fv_line vulnerability)))]
                     @ (case targetLine of None \<Rightarrow> [] | Some t \<Rightarrow> [(js ''original'', JStr t)])
                     @ [(js ''fixed'', JStr fixedLine), (js ''reason'', JStr expl)])])\<rparr>)"

text \<open>
  \<open>generateAIFix\<close>, given what the completion request of its \<open>try\<close> block comes to.
  Whatever is thrown inside the \<open>try\<close> block, by the request, by \<open>JSON.parse\<close>, by
  reading a property of \<open>null\<close> or by \<open>validateFix\<close>, is answered by
  \<open>generateRuleBasedFix\<close>.
\<close>

definition generateAIFix ::
  "FixVulnerability \<Rightarrow> jsstr \<Rightarrow> jsstr \<Rightarrow> completion \<Rightarrow> error + FixResponse" where
  "generateAIFix vulnerability code language outcome =
     (case outcome of
        CallError \<Rightarrow> generateRuleBasedFix vulnerability code language
      | NotJSON \<Rightarrow> generateRuleBasedFix vulnerability code language
      | ParsedAs aiResponse \<Rightarrow>
          (case get_prop aiResponse ''fixedCode'' of
             Inl e \<Rightarrow> generateRuleBasedFix vulnerability code language
           | Inr fixed \<Rightarrow>
               (case validateFix fixed code of
                  Inl e \<Rightarrow> generateRuleBasedFix vulnerability code language
                | Inr issues \<Rightarrow>
                    (case (get_prop aiResponse ''explanation'', get_prop aiResponse ''confidence'',
                           get_prop aiResponse ''changes'') of
                       (Inr expl, Inr conf, Inr chg) \<Rightarrow>
                         Inr \<lparr>r_success = (length issues = 0), r_fixedCode = fixed,
                              r_explanation = expl, r_confidence = conf, r_changes = chg\<rparr>
                     | _ \<Rightarrow> generateRuleBasedFix vulnerability code language))))"

text \<open>
  \<open>apply_at_once\<close> with the index of the first line as a parameter, for the proofs.
\<close>

definition at_once_from :: "nat \<Rightarrow> jsstr list \<Rightarrow> edit list \<Rightarrow> jsstr list" where
  "at_once_from n doc es =
     concat (map (\<lambda>(i, l). case find (\<lambda>e. e_line e = i) es of
                              None \<Rightarrow> [l]
                            | Some e \<Rightarrow> edited_line e l)
                 (enumerate n doc))"

text \<open>
  A fix that targets a line of the text and carries a replacement: its line number is
  within \<open>1..n\<close> and its \<open>fixed_code\<close> is present and not empty.
\<close>

definition fix_ok :: "jsstr list \<Rightarrow> Vulnerability \<Rightarrow> bool" where
  "fix_ok lines v =
     (1 \<le> v_line v \<and> v_line v \<le> int (length lines)
      \<and> (case v_fixed_code v of None \<Rightarrow> False | Some t \<Rightarrow> t \<noteq> []))"

text \<open>The call to \<open>editBuilder.replace\<close> that \<open>applyFixes\<close> makes for such a fix.\<close>

definition edit_of :: "jsstr list \<Rightarrow> Vulnerability \<Rightarrow> edit" where
  "edit_of lines v =
     \<lparr>e_line = nat (v_line v - 1), e_endcol = length (lines ! nat (v_line v - 1)),
      e_text = (case v_fixed_code v of None \<Rightarrow> [] | Some t \<Rightarrow> t)\<rparr>"

text \<open>A heap without objects.\<close>

definition empty_heap :: heap where
  "empty_heap = \<lparr>cells = (\<lambda>a. 0), fresh = 0\<rparr>"

lemmas catalog_defs = getVulnerabilityPatterns_def catalog_def generateFix_def set_lastIndex_def
  sql_re_def password_re_def
  eval_re_def xss_re_def innerHTML_re_def crypto_re_def sha1_re_def md5_re_def pickle_re_def
  shell_re_def

lemmas re_eval = test_def test_g_def match_here_def seqs_def alts_def lit_def liti_def
  plus1_def opt_def quotes_def js_def is_space_def is_word_def is_line_terminator_def
  canon_def replace_g_def


section \<open>Properties\<close>

lemma js_eq_iff: "js a = js b \<longleftrightarrow> a = b"
  by (simp add: js_def inj_map_eq_map [OF inj_of_char])

subsection \<open>Severity mapping\<close>

lemma mapSeverity_table:
  "mapSeverity (js ''BLOCKER'') = Sev Critical" "mapSeverity (js ''CRITICAL'') = Sev Critical"
  "mapSeverity (js ''MAJOR'') = Sev High" "mapSeverity (js ''MINOR'') = Sev Medium"
  "mapSeverity (js ''INFO'') = Sev Low"
  by (simp_all add: mapSeverity_def severity_mapping_def js_eq_iff)

lemma mapSeverity_other:
  "s \<notin> set object_prototype_members \<Longrightarrow> map_of severity_mapping s = None \<Longrightarrow>
   mapSeverity s = Sev Medium"
  by (simp add: mapSeverity_def)

text \<open>
  C10.  The mapping is not total into the four severities: for the string
  \<open>constructor\<close>, which is none of the five keys, the lookup finds the member inherited
  from \<open>Object.prototype\<close> and \<open>mapSeverity\<close> returns it instead of \<open>medium\<close>.
\<close>

theorem mapSeverity_inherited_member:
  "mapSeverity (js ''constructor'') = Inherited (js ''constructor'')
   \<and> mapSeverity (js ''constructor'') \<notin> {Sev Critical, Sev High, Sev Medium, Sev Low}"
  by (simp add: mapSeverity_def severity_mapping_def object_prototype_members_def js_eq_iff)

subsection \<open>Code context\<close>

lemma take_drop_upto:
  assumes "s + m \<le> length xs"
  shows "take m (drop s xs) = map (\<lambda>i. xs ! nat (i - 1)) [int s + 1 .. int (s + m)]"
proof (rule nth_equalityI)
  show "length (take m (drop s xs)) = length (map (\<lambda>i. xs ! nat (i - 1)) [int s + 1 .. int (s + m)])"
    using assms by simp
next
  fix k assume "k < length (take m (drop s xs))"
  then have k: "k < m" by simp
  then have "[int s + 1 .. int (s + m)] ! k = int s + 1 + int k" by (intro nth_upto) simp
  with k assms show "take m (drop s xs) ! k = map (\<lambda>i. xs ! nat (i - 1)) [int s + 1 .. int (s + m)] ! k"
    by (simp add: nat_add_distrib)
qed

text \<open>
  \<open>getCodeContext\<close> of the two routes returns the lines \<open>L - 3\<close> to \<open>L + 3\<close>, clipped
  to the text, for every line \<open>L\<close> of the text.
\<close>

lemma getCodeContext_window:
  assumes "1 \<le> L" and "L \<le> int (length (split_nl code))"
  shows "getCodeContext code L 3 = join_nl (window3 (split_nl code) L)"
proof -
  let ?lines = "split_nl code"
  let ?n = "int (length ?lines)"
  let ?s = "nat (max 0 (L - 3 - 1))"
  let ?m = "nat (min ?n (L + 3) - max 0 (L - 3 - 1))"
  have sm: "?s + ?m \<le> length ?lines" using assms by auto
  have lo: "int ?s + 1 = max 1 (L - 3)" by auto
  have hi: "int (?s + ?m) = min ?n (L + 3)" using assms by auto
  have "js_slice ?lines (max 0 (L - 3 - 1)) (min ?n (L + 3)) = take ?m (drop ?s ?lines)"
    using assms by (auto simp: js_slice_def Let_def min_def max_def)
  also have "\<dots> = window3 ?lines L"
    unfolding window3_def take_drop_upto [OF sm] lo hi ..
  finally show ?thesis by (simp add: getCodeContext_def Let_def)
qed

text \<open>
  C9.  For line 4 of a text of seven lines the window of three lines on each side is the
  whole text, and \<open>getCodeContext\<close> of the two routes returns it; \<open>getCodeContext\<close> of
  the analysis service starts one line late and returns lines 2 to 7 only.
\<close>

theorem AIService_getCodeContext_window:
  "AIService_getCodeContext (map js [''a'', ''b'', ''c'', ''d'', ''e'', ''f'', ''g'']) 4
     = join_nl (map js [''b'', ''c'', ''d'', ''e'', ''f'', ''g''])
   \<and> join_nl (window3 (map js [''a'', ''b'', ''c'', ''d'', ''e'', ''f'', ''g'']) 4)
     = join_nl (map js [''a'', ''b'', ''c'', ''d'', ''e'', ''f'', ''g''])
   \<and> getCodeContext (join_nl (map js [''a'', ''b'', ''c'', ''d'', ''e'', ''f'', ''g''])) 4 3
     = join_nl (map js [''a'', ''b'', ''c'', ''d'', ''e'', ''f'', ''g''])"
  by (simp add: AIService_getCodeContext_def window3_def getCodeContext_def js_slice_def js_def
      upt_rec upto.simps)

subsection \<open>Confidence\<close>

text \<open>
  C5, as claimed, fails: for a well-known rule of severity \<open>MINOR\<close> on a short line the
  code computes 80, the claimed formula 85.
\<close>

theorem calculateConfidence_counterexample:
  "calculateConfidence (js ''eval(x)'')
     \<lparr>i_key = js ''k'', i_rule = js ''javascript:S4784'', i_severity = js ''MINOR'', i_line = 1,
      i_message = js ''m'', i_type = js ''VULNERABILITY''\<rparr> = 80
   \<and> claimed_confidence
       (well_known \<lparr>i_key = js ''k'', i_rule = js ''javascript:S4784'', i_severity = js ''MINOR'',
                    i_line = 1, i_message = js ''m'', i_type = js ''VULNERABILITY''\<rparr>)
       (length (js ''eval(x)'')) = 85"
  by (simp add: calculateConfidence_def claimed_confidence_def well_known_def js_def)

text \<open>
  C5, amended.  The confidence is 70, plus 15 for severity \<open>BLOCKER\<close> or \<open>CRITICAL\<close> or
  plus 10 for severity \<open>MAJOR\<close>, plus 10 for a well-known rule (one whose identifier
  contains \<open>S4784\<close> or \<open>S5443\<close>), minus 5 for a line longer than 100 code units, capped
  at 95.
\<close>

theorem calculateConfidence_formula:
  "calculateConfidence code issue =
     min 95 (70
             + (if i_severity issue = js ''BLOCKER'' \<or> i_severity issue = js ''CRITICAL'' then 15
                else if i_severity issue = js ''MAJOR'' then 10 else 0)
             + (if well_known issue then 10 else 0)
             - (if length code > 100 then 5 else 0))"
  by (simp add: calculateConfidence_def well_known_def Let_def)


subsection \<open>Detection\<close>

text \<open>
  The pattern objects of a scan are created by the scan, at unused addresses and with
  \<open>lastIndex = 0\<close>; the scan reads and writes no other object.  So what a scan finds
  does not depend on the heap it starts in.
\<close>

lemma new_regexps_props:
  "new_regexps ps h = (qs, h') \<Longrightarrow>
     map fst qs = ps \<and> map snd qs = [fresh h ..< fresh h + length ps]
     \<and> fresh h' = fresh h + length ps
     \<and> (\<forall>a. fresh h \<le> a \<and> a < fresh h + length ps \<longrightarrow> cells h' a = 0)
     \<and> (\<forall>a. a < fresh h \<longrightarrow> cells h' a = cells h a)"
proof (induction ps arbitrary: h qs h')
  case Nil
  then show ?case by simp
next
  case (Cons p ps)
  let ?h1 = "h\<lparr>cells := (cells h)(fresh h := 0), fresh := Suc (fresh h)\<rparr>"
  obtain rs h2 where r: "new_regexps ps ?h1 = (rs, h2)" by (cases "new_regexps ps ?h1")
  from Cons.prems r have qs: "qs = (p, fresh h) # rs" and h': "h' = h2" by simp_all
  note ih = Cons.IH [OF r]
  from ih have 1: "map fst rs = ps" and 2: "map snd rs = [Suc (fresh h) ..< Suc (fresh h) + length ps]"
    and 3: "fresh h2 = Suc (fresh h) + length ps"
    and 4: "\<And>a. Suc (fresh h) \<le> a \<Longrightarrow> a < Suc (fresh h) + length ps \<Longrightarrow> cells h2 a = 0"
    and 5: "\<And>a. a < Suc (fresh h) \<Longrightarrow> cells h2 a = cells ?h1 a"
    by simp_all
  have zero: "cells h2 a = 0" if "fresh h \<le> a" "a < fresh h + length (p # ps)" for a
  proof (cases "a = fresh h")
    case True
    with 5 [of a] show ?thesis by simp
  next
    case False
    with that 4 [of a] show ?thesis by simp
  qed
  have old: "cells h2 a = cells h a" if "a < fresh h" for a
    using 5 [of a] that by simp
  have upt: "[fresh h ..< fresh h + length (p # ps)]
             = fresh h # [Suc (fresh h) ..< Suc (fresh h) + length ps]"
    by (simp add: upt_conv_Cons del: upt_Suc)
  show ?case
  proof (intro conjI allI impI)
    show "map fst qs = p # ps" using qs 1 by simp
    show "map snd qs = [fresh h ..< fresh h + length (p # ps)]"
      unfolding upt qs using 2 by (simp del: upt_Suc)
    show "fresh h' = fresh h + length (p # ps)" using h' 3 by simp
    show "cells h' a = 0" if "fresh h \<le> a \<and> a < fresh h + length (p # ps)" for a
      using zero [of a] that h' by simp
    show "cells h' a = cells h a" if "a < fresh h" for a
      using old [OF that] h' by simp
  qed
qed

lemma generateFix_frame: "b \<noteq> a \<Longrightarrow> cells (snd (generateFix line p a language h)) b = cells h b"
  by (simp add: generateFix_def set_lastIndex_def split: prod.splits bool.splits)

lemma scan_patterns_frame:
  "a \<notin> snd ` set ps \<Longrightarrow> cells (snd (scan_patterns language i line ps h)) a = cells h a"
proof (induction ps arbitrary: h)
  case Nil
  then show ?case by simp
next
  case (Cons x ps)
  obtain p b where x: "x = (p, b)" by (cases x)
  with Cons.prems have ne: "a \<noteq> b" and rest: "a \<notin> snd ` set ps" by auto
  obtain t li where t: "test_g (p_regex p) (cells h b) line = (t, li)"
    by (cases "test_g (p_regex p) (cells h b) line")
  let ?h0 = "set_lastIndex b li h"
  have h0: "cells ?h0 a = cells h a" using ne by (simp add: set_lastIndex_def)
  show ?case
  proof (cases t)
    case False
    with x t Cons.IH [OF rest, of ?h0] h0 show ?thesis by simp
  next
    case True
    obtain r h1 where g: "generateFix line p b language ?h0 = (r, h1)"
      by (cases "generateFix line p b language ?h0")
    have h1: "cells h1 a = cells h a"
      using generateFix_frame [of a b line p language ?h0] ne g h0 by simp
    show ?thesis
    proof (cases r)
      case (Inl e)
      with x t True g h1 show ?thesis by simp
    next
      case (Inr fixed)
      obtain r2 h2 where s2: "scan_patterns language i line ps h1 = (r2, h2)"
        by (cases "scan_patterns language i line ps h1")
      from Cons.IH [OF rest, of h1] s2 h1 have "cells h2 a = cells h a" by simp
      with x t True g Inr s2 show ?thesis by (cases r2) simp_all
    qed
  qed
qed


lemma generateFix_rel:
  "cells h1 a = cells h2 b \<Longrightarrow>
   fst (generateFix line p a language h1) = fst (generateFix line p b language h2)
   \<and> cells (snd (generateFix line p a language h1)) a
     = cells (snd (generateFix line p b language h2)) b"
  by (simp add: generateFix_def set_lastIndex_def split: prod.splits bool.splits)

lemma scan_patterns_rel:
  assumes "map fst ps = map fst qs"
    and "map (\<lambda>x. cells h1 (snd x)) ps = map (\<lambda>x. cells h2 (snd x)) qs"
    and "distinct (map snd ps)" and "distinct (map snd qs)"
  shows "fst (scan_patterns language i line ps h1) = fst (scan_patterns language i line qs h2)
       \<and> map (\<lambda>x. cells (snd (scan_patterns language i line ps h1)) (snd x)) ps
         = map (\<lambda>x. cells (snd (scan_patterns language i line qs h2)) (snd x)) qs"
  using assms
proof (induction ps arbitrary: qs h1 h2)
  case Nil
  then show ?case by simp
next
  case (Cons x ps)
  obtain p a where x: "x = (p, a)" by (cases x)
  from Cons.prems(1) x obtain b qs' where qs: "qs = (p, b) # qs'" and fsts: "map fst ps = map fst qs'"
    by (cases qs) auto
  from Cons.prems(2) x qs have head: "cells h1 a = cells h2 b"
    and tails: "map (\<lambda>x. cells h1 (snd x)) ps = map (\<lambda>x. cells h2 (snd x)) qs'"
    by simp_all
  from Cons.prems(3) x have a: "a \<notin> snd ` set ps" and dps: "distinct (map snd ps)" by auto
  from Cons.prems(4) qs have b: "b \<notin> snd ` set qs'" and dqs: "distinct (map snd qs')" by auto
  obtain t li where t1: "test_g (p_regex p) (cells h1 a) line = (t, li)"
    by (cases "test_g (p_regex p) (cells h1 a) line")
  with head have t2: "test_g (p_regex p) (cells h2 b) line = (t, li)" by simp
  let ?k1 = "set_lastIndex a li h1" and ?k2 = "set_lastIndex b li h2"
  have keep1: "map (\<lambda>x. cells k (snd x)) ps = map (\<lambda>x. cells h1 (snd x)) ps"
    if "\<And>c. c \<noteq> a \<Longrightarrow> cells k c = cells h1 c" for k
  proof (rule map_cong [OF refl])
    fix x assume "x \<in> set ps"
    with a have "snd x \<noteq> a" by auto
    then show "cells k (snd x) = cells h1 (snd x)" by (rule that)
  qed
  have keep2: "map (\<lambda>x. cells k (snd x)) qs' = map (\<lambda>x. cells h2 (snd x)) qs'"
    if "\<And>c. c \<noteq> b \<Longrightarrow> cells k c = cells h2 c" for k
  proof (rule map_cong [OF refl])
    fix x assume "x \<in> set qs'"
    with b have "snd x \<noteq> b" by auto
    then show "cells k (snd x) = cells h2 (snd x)" by (rule that)
  qed
  have step: "fst (scan_patterns language i line ps k1) = fst (scan_patterns language i line qs' k2)
       \<and> map (\<lambda>x. cells (snd (scan_patterns language i line ps k1)) (snd x)) ((p, a) # ps)
         = map (\<lambda>x. cells (snd (scan_patterns language i line qs' k2)) (snd x)) ((p, b) # qs')"
    if k: "\<And>c. c \<noteq> a \<Longrightarrow> cells k1 c = cells h1 c" "\<And>c. c \<noteq> b \<Longrightarrow> cells k2 c = cells h2 c"
      and kh: "cells k1 a = cells k2 b" for k1 k2
  proof -
    have "map (\<lambda>x. cells k1 (snd x)) ps = map (\<lambda>x. cells k2 (snd x)) qs'"
      using keep1 [of k1] keep2 [of k2] k tails by simp
    from Cons.IH [OF fsts this dps dqs]
    have ih: "fst (scan_patterns language i line ps k1) = fst (scan_patterns language i line qs' k2)"
      "map (\<lambda>x. cells (snd (scan_patterns language i line ps k1)) (snd x)) ps
         = map (\<lambda>x. cells (snd (scan_patterns language i line qs' k2)) (snd x)) qs'"
      by simp_all
    have "cells (snd (scan_patterns language i line ps k1)) a = cells k1 a"
      by (rule scan_patterns_frame [OF a])
    moreover have "cells (snd (scan_patterns language i line qs' k2)) b = cells k2 b"
      by (rule scan_patterns_frame [OF b])
    ultimately show ?thesis using ih kh by simp
  qed
  show ?case
  proof (cases t)
    case False
    have "cells ?k1 a = cells ?k2 b" by (simp add: set_lastIndex_def)
    from step [of ?k1 ?k2, OF _ _ this] x qs t1 t2 False show ?thesis
      by (simp add: set_lastIndex_def)
  next
    case True
    obtain r g1 where g1: "generateFix line p a language ?k1 = (r, g1)"
      by (cases "generateFix line p a language ?k1")
    obtain r' g2 where g2: "generateFix line p b language ?k2 = (r', g2)"
      by (cases "generateFix line p b language ?k2")
    have kk: "cells ?k1 a = cells ?k2 b" by (simp add: set_lastIndex_def)
    from generateFix_rel [OF kk, of line p language] g1 g2
    have rr: "r' = r" and gg: "cells g1 a = cells g2 b" by simp_all
    have f1: "\<And>c. c \<noteq> a \<Longrightarrow> cells g1 c = cells h1 c"
      using generateFix_frame [of _ a line p language ?k1] g1 by (simp add: set_lastIndex_def)
    have f2: "\<And>c. c \<noteq> b \<Longrightarrow> cells g2 c = cells h2 c"
      using generateFix_frame [of _ b line p language ?k2] g2 by (simp add: set_lastIndex_def)
    show ?thesis
    proof (cases r)
      case (Inl e)
      have "map (\<lambda>x. cells g1 (snd x)) ps = map (\<lambda>x. cells g2 (snd x)) qs'"
        using keep1 [of g1] keep2 [of g2] f1 f2 tails by simp
      with x qs t1 t2 True g1 g2 rr Inl gg show ?thesis by simp
    next
      case (Inr fixed)
      note st = step [of g1 g2, OF f1 f2 gg]
      obtain r1 m1 where s1: "scan_patterns language i line ps g1 = (r1, m1)"
        by (cases "scan_patterns language i line ps g1")
      obtain r2 m2 where s2: "scan_patterns language i line qs' g2 = (r2, m2)"
        by (cases "scan_patterns language i line qs' g2")
      from st s1 s2 have r12: "r2 = r1"
        and cells: "map (\<lambda>x. cells m1 (snd x)) ((p, a) # ps) = map (\<lambda>x. cells m2 (snd x)) ((p, b) # qs')"
        by simp_all
      from x qs t1 t2 True g1 g2 rr Inr s1 s2 r12 cells show ?thesis
        by (cases r1) simp_all
    qed
  qed
qed

lemma scan_lines_rel:
  assumes "map fst ps = map fst qs"
    and "map (\<lambda>x. cells h1 (snd x)) ps = map (\<lambda>x. cells h2 (snd x)) qs"
    and "distinct (map snd ps)" and "distinct (map snd qs)"
  shows "fst (scan_lines language i lines ps h1) = fst (scan_lines language i lines qs h2)"
  using assms(2)
proof (induction lines arbitrary: i h1 h2)
  case Nil
  then show ?case by simp
next
  case (Cons l lines)
  obtain r1 k1 where s1: "scan_patterns language i l ps h1 = (r1, k1)"
    by (cases "scan_patterns language i l ps h1")
  obtain r2 k2 where s2: "scan_patterns language i l qs h2 = (r2, k2)"
    by (cases "scan_patterns language i l qs h2")
  from scan_patterns_rel [OF assms(1) Cons.prems assms(3,4), of language i l] s1 s2
  have r: "r2 = r1" and k: "map (\<lambda>x. cells k1 (snd x)) ps = map (\<lambda>x. cells k2 (snd x)) qs"
    by simp_all
  show ?case
  proof (cases r1)
    case (Inl e)
    with s1 s2 r show ?thesis by simp
  next
    case (Inr vs)
    obtain w1 m1 where t1: "scan_lines language (Suc i) lines ps k1 = (w1, m1)"
      by (cases "scan_lines language (Suc i) lines ps k1")
    obtain w2 m2 where t2: "scan_lines language (Suc i) lines qs k2 = (w2, m2)"
      by (cases "scan_lines language (Suc i) lines qs k2")
    from Cons.IH [OF k, of "Suc i"] t1 t2 have "w2 = w1" by simp
    with s1 s2 r Inr t1 t2 show ?thesis by (cases w1) simp_all
  qed
qed

lemma scan_heap_independent: "fst (scan lines language h1) = fst (scan lines language h2)"
proof -
  obtain ps k1 where a1: "new_regexps (catalog language) h1 = (ps, k1)"
    by (cases "new_regexps (catalog language) h1")
  obtain qs k2 where a2: "new_regexps (catalog language) h2 = (qs, k2)"
    by (cases "new_regexps (catalog language) h2")
  note p1 = new_regexps_props [OF a1] and p2 = new_regexps_props [OF a2]
  have fsts: "map fst ps = map fst qs" using p1 p2 by simp
  have d1: "distinct (map snd ps)" using p1 by simp
  have d2: "distinct (map snd qs)" using p2 by simp
  have z1: "map (\<lambda>x. cells k1 (snd x)) ps = map (\<lambda>x. 0) ps"
  proof (rule map_cong [OF refl])
    fix x assume "x \<in> set ps"
    then have "snd x \<in> set (map snd ps)" by simp
    with p1 show "cells k1 (snd x) = 0" by simp
  qed
  have z2: "map (\<lambda>x. cells k2 (snd x)) qs = map (\<lambda>x. 0) qs"
  proof (rule map_cong [OF refl])
    fix x assume "x \<in> set qs"
    then have "snd x \<in> set (map snd qs)" by simp
    with p2 show "cells k2 (snd x) = 0" by simp
  qed
  have "length ps = length qs" using fsts by (metis length_map)
  then have "map (\<lambda>x. 0 :: nat) ps = map (\<lambda>x. 0) qs" by (simp add: map_replicate_const)
  with z1 z2 have cellseq: "map (\<lambda>x. cells k1 (snd x)) ps = map (\<lambda>x. cells k2 (snd x)) qs"
    by simp
  from scan_lines_rel [OF fsts cellseq d1 d2, of language 0 lines] a1 a2
  show ?thesis by (simp add: scan_def getVulnerabilityPatterns_def)
qed

text \<open>
  The objects matter: scanning the same line again with the pattern objects of a first
  scan, instead of new ones, does not find what the first scan found.
\<close>

lemma scan_lines_with_used_patterns:
  "(case getVulnerabilityPatterns (js ''javascript'') empty_heap of
      (ps, h1) \<Rightarrow>
        (case scan_lines (js ''javascript'') 0 [js ''eval(a)''] ps h1 of
           (r1, h2) \<Rightarrow>
             map_sum id (map v_line) r1 = Inr [1]
             \<and> map_sum id (map v_line) (fst (scan_lines (js ''javascript'') 0 [js ''eval(a)''] ps h2))
                 = Inr []))"
  by (simp add: catalog_defs empty_heap_def re_eval)

text \<open>
  C7.  Two invocations of the scan on the same lines and language give the same
  result, the same sequence of findings (types, severities, line numbers, descriptions
  and fixed code, in the same order) or the same error, whatever the heaps they start
  in, the configuration and the answers to the dialogs; in particular a second
  invocation that starts in the heap the first one has left gives the result of the
  first.
\<close>

theorem scan_deterministic:
  "findings (performScan autoFix1 choice1 second1 lines language h1)
     = findings (performScan autoFix2 choice2 second2 lines language h2)
   \<and> findings (performScan autoFix2 choice2 second2 lines language
                  (snd (performScan autoFix1 choice1 second1 lines language h1)))
     = findings (performScan autoFix1 choice1 second1 lines language h1)"
proof -
  have "findings (performScan autoFix choice second lines language h) = fst (scan lines language h)"
    for autoFix choice second h
    by (cases "scan lines language h")
       (auto simp: findings_def performScan_def split: sum.splits)
  then show ?thesis using scan_heap_independent by metis
qed

text \<open>
  The state of the pattern objects shows within one scan: of three adjacent lines that
  call \<open>eval\<close>, the second is not reported.
\<close>

lemma scan_skips_adjacent_match:
  "map_sum id (map v_line)
     (fst (scan [js ''eval(a)'', js ''eval(b)'', js ''eval(c)''] (js ''javascript'') h))
   = Inr [1, 3]"
  by (simp add: scan_def catalog_defs re_eval)

text \<open>The \<open>eval\<close> entry matches every line that contains \<open>eval(\<close>.\<close>

lemma eval_re_prefix: "prefix (js ''eval('') s \<Longrightarrow> match_here eval_re s \<noteq> None"
  by (auto simp: prefix_def eval_re_def re_eval)

lemma eval_re_includes: "js_includes s (js ''eval('') \<Longrightarrow> test eval_re s"
proof (induction s)
  case Nil
  then show ?case by (simp add: js_def)
next
  case (Cons x s)
  show ?case
  proof (cases "prefix (js ''eval('') (x # s)")
    case True
    from eval_re_prefix [OF this] show ?thesis by (auto simp: test_def)
  next
    case False
    with Cons.prems have "js_includes s (js ''eval('')" by simp
    from Cons.IH [OF this] show ?thesis by (auto simp: test_def split: option.splits)
  qed
qed

text \<open>The fix of the weak-hash entry throws on every line.\<close>

lemma generateFix_weak_hash_throws:
  "p_type p = js ''Weak Crypto'' \<Longrightarrow> fst (generateFix line p a language h) = Inl ReferenceError"
  by (simp add: generateFix_def js_eq_iff split: prod.splits bool.splits)

text \<open>
  C6.  The text of the two lines \<open>md5(x)\<close> and \<open>eval(y)\<close> has a line that contains
  \<open>eval(\<close> and that the \<open>eval\<close> entry matches, and scanned alone that line yields a
  finding of type \<open>Eval Usage\<close>; but the scan of the two lines yields no finding at
  all: the weak-hash entry matches the first line, its fix throws, and the scan ends
  with that error.
\<close>

theorem scan_throws_on_weak_hash:
  "js_includes (js ''eval(y)'') (js ''eval('')
   \<and> test eval_re (js ''eval(y)'')
   \<and> map_sum id (map v_type) (fst (scan [js ''eval(y)''] (js ''javascript'') h))
       = Inr [js ''Eval Usage'']
   \<and> fst (scan [js ''md5(x)'', js ''eval(y)''] (js ''javascript'') h) = Inl ReferenceError
   \<and> findings (performScan autoFix choice choice2 [js ''md5(x)'', js ''eval(y)'']
                  (js ''javascript'') h) = Inl ReferenceError"
  by (simp add: findings_def performScan_def scan_def catalog_defs re_eval)

subsection \<open>Rule-based fixes of the extension\<close>

text \<open>
  C3.  The cross-site scripting entry matches the line \<open>document.write(x)\<close>; its fix
  returns the line as it is, so the entry still matches the fixed line, and this is the
  fixed code that the scan reports.
\<close>

theorem rule_based_fix_not_effective:
  "test xss_re (js ''document.write(x)'')
   \<and> fst (generateFix (js ''document.write(x)'')
            \<lparr>p_type = js ''XSS Vulnerability'', p_severity = Medium, p_regex = xss_re,
             p_description = js ''Potential XSS vulnerability'',
             p_fix = js ''Use textContent or sanitize HTML properly''\<rparr>
            a (js ''javascript'') h) = Inr (js ''document.write(x)'')
   \<and> fst (scan [js ''document.write(x)''] (js ''javascript'') h)
     = Inr [\<lparr>v_type = js ''XSS Vulnerability'', v_severity = Medium, v_line = 1,
             v_description = js ''Potential XSS vulnerability'',
             v_fixed_code = Some (js ''document.write(x)'')\<rparr>]"
  by (simp add: scan_def catalog_defs re_eval)

subsection \<open>Batches of fixes\<close>

lemma split_nl_nonempty: "split_nl s \<noteq> []"
  by (induction s) (auto split: list.splits)

lemma split_nl_single: "10 \<notin> set t \<Longrightarrow> split_nl t = [t]"
  by (induction t) auto

lemma edited_line_nonempty: "edited_line e l \<noteq> []"
  by (simp add: edited_line_def split_nl_nonempty)

lemma replace_line_append:
  "e_line e < length p \<Longrightarrow> replace_line (p @ q) e = replace_line p e @ q"
  by (simp add: replace_line_def nth_append)

lemma length_replace_line: "e_line e < length p \<Longrightarrow> e_line e < length (replace_line p e)"
  using edited_line_nonempty [of e "p ! e_line e"]
  by (cases "edited_line e (p ! e_line e)") (simp_all add: replace_line_def)

lemma foldl_replace_line_append:
  "sorted_wrt (>) (map e_line es) \<Longrightarrow> (\<And>e. e \<in> set es \<Longrightarrow> e_line e < length p) \<Longrightarrow>
   foldl replace_line (p @ q) es = foldl replace_line p es @ q"
proof (induction es arbitrary: p)
  case Nil
  then show ?case by simp
next
  case (Cons e es)
  have e: "e_line e < length p" using Cons.prems(2) by simp
  have below: "\<And>e'. e' \<in> set es \<Longrightarrow> e_line e' < length (replace_line p e)"
  proof -
    fix e' assume "e' \<in> set es"
    with Cons.prems(1) have "e_line e' < e_line e" by auto
    with length_replace_line [OF e] show "e_line e' < length (replace_line p e)" by simp
  qed
  from Cons.prems(1) have "sorted_wrt (>) (map e_line es)" by simp
  from Cons.IH [OF this below] show ?case by (simp add: replace_line_append [OF e])
qed

lemma at_once_from_append:
  "at_once_from n (p @ q) es = at_once_from n p es @ at_once_from (n + length p) q es"
  by (simp add: at_once_from_def enumerate_append_eq)

lemma at_once_from_untouched:
  "(\<And>e. e \<in> set es \<Longrightarrow> e_line e < n) \<Longrightarrow> at_once_from n doc es = doc"
proof (induction doc arbitrary: n)
  case Nil
  then show ?case by (simp add: at_once_from_def)
next
  case (Cons l doc)
  have "find (\<lambda>e. e_line e = n) es = None"
    using Cons.prems by (auto simp: find_None_iff)
  moreover have "at_once_from (Suc n) doc es = doc"
    using Cons.prems by (intro Cons.IH) (simp add: less_Suc_eq)
  ultimately show ?case by (simp add: at_once_from_def)
qed

lemma at_once_from_Cons:
  "at_once_from n (l # doc) es = at_once_from n [l] es @ at_once_from (Suc n) doc es"
  by (simp add: at_once_from_def)

lemma at_once_from_skip:
  "n + length doc \<le> e_line e \<Longrightarrow> at_once_from n doc (e # es) = at_once_from n doc es"
proof (induction doc arbitrary: n)
  case Nil
  then show ?case by (simp add: at_once_from_def)
next
  case (Cons l doc)
  from Cons.prems have "at_once_from (Suc n) doc (e # es) = at_once_from (Suc n) doc es"
    by (intro Cons.IH) simp
  moreover from Cons.prems have "e_line e \<noteq> n" by simp
  ultimately show ?case by (simp add: at_once_from_def)
qed

lemma apply_at_once_Cons:
  assumes "e_line e < length doc" and "\<And>e'. e' \<in> set es \<Longrightarrow> e_line e' < e_line e"
  shows "apply_at_once doc (e # es) =
           apply_at_once (take (e_line e) doc) es @ edited_line e (doc ! e_line e)
           @ drop (Suc (e_line e)) doc"
proof -
  let ?i = "e_line e"
  have doc: "doc = take ?i doc @ [doc ! ?i] @ drop (Suc ?i) doc"
    using assms(1) by (simp add: Cons_nth_drop_Suc)
  have len: "length (take ?i doc) = ?i" using assms(1) by simp
  have "apply_at_once doc (e # es) = at_once_from 0 (take ?i doc @ [doc ! ?i] @ drop (Suc ?i) doc) (e # es)"
    using doc by (simp add: apply_at_once_def at_once_from_def)
  also have "\<dots> = at_once_from 0 (take ?i doc) (e # es) @ at_once_from ?i [doc ! ?i] (e # es)
                    @ at_once_from (Suc ?i) (drop (Suc ?i) doc) (e # es)"
    using len by (simp add: at_once_from_append at_once_from_Cons [of _ _ "drop (Suc ?i) doc"])
  also have "at_once_from 0 (take ?i doc) (e # es) = at_once_from 0 (take ?i doc) es"
    by (rule at_once_from_skip) simp
  also have "at_once_from ?i [doc ! ?i] (e # es) = edited_line e (doc ! ?i)"
    by (simp add: at_once_from_def)
  also have "at_once_from (Suc ?i) (drop (Suc ?i) doc) (e # es) = drop (Suc ?i) doc"
    by (rule at_once_from_untouched) (use assms(2) in \<open>auto simp: less_Suc_eq\<close>)
  finally show ?thesis by (simp add: apply_at_once_def at_once_from_def)
qed

lemma in_order_eq_at_once:
  "sorted_wrt (>) (map e_line es) \<Longrightarrow> (\<And>e. e \<in> set es \<Longrightarrow> e_line e < length doc) \<Longrightarrow>
   apply_in_order doc es = apply_at_once doc es"
proof (induction es arbitrary: doc)
  case Nil
  have "concat (map (\<lambda>(i, l). [l]) (enumerate n doc)) = doc" for n
    by (induction doc arbitrary: n) auto
  then show ?case by (simp add: apply_in_order_def apply_at_once_def)
next
  case (Cons e es)
  let ?i = "e_line e"
  have e: "?i < length doc" using Cons.prems(2) by simp
  have lower: "\<And>e'. e' \<in> set es \<Longrightarrow> e_line e' < ?i" using Cons.prems(1) by auto
  have sorted: "sorted_wrt (>) (map e_line es)" using Cons.prems(1) by simp
  have lower': "\<And>e'. e' \<in> set es \<Longrightarrow> e_line e' < length (take ?i doc)"
    using lower e by simp
  have "apply_in_order doc (e # es)
        = foldl replace_line (take ?i doc @ (edited_line e (doc ! ?i) @ drop (Suc ?i) doc)) es"
    using e by (simp add: apply_in_order_def replace_line_def)
  also have "\<dots> = foldl replace_line (take ?i doc) es @ edited_line e (doc ! ?i) @ drop (Suc ?i) doc"
    by (rule foldl_replace_line_append [OF sorted lower'])
  also have "foldl replace_line (take ?i doc) es = apply_at_once (take ?i doc) es"
    using Cons.IH [OF sorted lower'] by (simp add: apply_in_order_def)
  finally show ?case using apply_at_once_Cons [OF e lower] by simp
qed


lemma replace_calls_all:
  "list_all (fix_ok lines) vs \<Longrightarrow> replace_calls lines vs = Inr (map (edit_of lines) vs)"
  by (induction vs) (auto simp: fix_ok_def edit_of_def Let_def split: option.splits)

lemma sorted_desc_lines:
  assumes "distinct (map v_line vs)" and "list_all (fix_ok lines) vs"
  shows "sorted_wrt (>) (map (e_line \<circ> edit_of lines) (sort_key (\<lambda>v. - v_line v) vs))"
proof -
  let ?s = "sort_key (\<lambda>v. - v_line v) vs"
  have "sorted (map (\<lambda>v. - v_line v) ?s)" by (rule sorted_sort_key)
  moreover have "distinct (map (\<lambda>v. - v_line v) ?s)"
    using assms(1) by (simp add: distinct_map inj_on_def)
  ultimately have "sorted_wrt (<) (map (\<lambda>v. - v_line v) ?s)"
    by (simp add: strict_sorted_iff)
  then have lt: "sorted_wrt (\<lambda>a b. v_line b < v_line a) ?s"
    by (simp add: sorted_wrt_map)
  have ok: "\<And>v. v \<in> set ?s \<Longrightarrow> 1 \<le> v_line v"
    using assms(2) by (auto simp: list_all_iff fix_ok_def)
  have "sorted_wrt (\<lambda>a b. nat (v_line b - 1) < nat (v_line a - 1)) ?s"
    by (rule sorted_wrt_mono_rel [OF _ lt]) (use ok in force)
  then show ?thesis by (simp add: sorted_wrt_map edit_of_def)
qed

lemma find_edit_of:
  assumes "list_all (fix_ok lines) vs"
  shows "find (\<lambda>e. e_line e = i) (map (edit_of lines) vs)
         = map_option (edit_of lines) (find (\<lambda>v. v_line v = int i + 1) vs)"
  using assms
proof (induction vs)
  case Nil
  then show ?case by simp
next
  case (Cons v vs)
  from Cons.prems have "1 \<le> v_line v" by (simp add: fix_ok_def)
  then have "(nat (v_line v - 1) = i) = (v_line v = int i + 1)" by auto
  with Cons show ?case by (simp add: edit_of_def)
qed

lemma find_SomeD: "find P xs = Some x \<Longrightarrow> x \<in> set xs \<and> P x"
  by (induction xs) (auto split: if_splits)

lemma find_distinct_key:
  assumes "distinct (map f xs)" and "set ys = set xs"
  shows "find (\<lambda>x. f x = k) ys = find (\<lambda>x. f x = k) xs"
proof (cases "find (\<lambda>x. f x = k) xs")
  case None
  then have "\<And>x. x \<in> set xs \<Longrightarrow> f x \<noteq> k" by (auto simp: find_None_iff)
  then have "find (\<lambda>x. f x = k) ys = None" by (simp add: find_None_iff assms(2))
  with None show ?thesis by simp
next
  case (Some x)
  then have x: "x \<in> set xs" "f x = k" by (auto dest: find_SomeD)
  have uniq: "\<And>y. y \<in> set xs \<Longrightarrow> f y = k \<Longrightarrow> y = x"
    using assms(1) x by (auto simp: distinct_map inj_on_def)
  obtain y where y: "find (\<lambda>x. f x = k) ys = Some y"
    using x assms(2) by (cases "find (\<lambda>x. f x = k) ys") (auto simp: find_None_iff)
  then have "y \<in> set ys" "f y = k" by (auto dest: find_SomeD)
  with uniq assms(2) have "y = x" by auto
  with y Some show ?thesis by simp
qed

lemma at_once_eq_fixed_text:
  assumes "list_all (fix_ok lines) vs"
  shows "apply_at_once lines (map (edit_of lines) vs) = fixed_text lines vs"
proof -
  have "(case find (\<lambda>e. e_line e = i) (map (edit_of lines) vs) of
           None \<Rightarrow> [l] | Some e \<Rightarrow> edited_line e l)
      = (case find (\<lambda>v. v_line v = int i + 1) vs of
           None \<Rightarrow> [l]
         | Some v \<Rightarrow> (case v_fixed_code v of None \<Rightarrow> [l] | Some t \<Rightarrow> split_nl t))"
    if "(i, l) \<in> set (enumerate 0 lines)" for i l
  proof (cases "find (\<lambda>v. v_line v = int i + 1) vs")
    case None
    then show ?thesis by (simp add: find_edit_of [OF assms])
  next
    case (Some v)
    then have v: "v \<in> set vs" "v_line v = int i + 1" by (auto dest: find_SomeD)
    with assms obtain t where t: "v_fixed_code v = Some t"
      by (auto simp: list_all_iff fix_ok_def split: option.splits)
    from that have l: "l = lines ! i" by (auto simp: in_set_enumerate_eq)
    from Some t v l show ?thesis
      by (simp add: find_edit_of [OF assms] edited_line_def edit_of_def)
  qed
  then show ?thesis
    unfolding apply_at_once_def fixed_text_def
    by (intro arg_cong [where f = concat] map_cong) auto
qed

lemma fixed_text_sort:
  assumes "distinct (map v_line vs)"
  shows "fixed_text lines (sort_key f vs) = fixed_text lines vs"
proof -
  have "find (\<lambda>v. v_line v = k) (sort_key f vs) = find (\<lambda>v. v_line v = k) vs" for k
    by (rule find_distinct_key [OF assms]) simp
  then show ?thesis by (simp add: fixed_text_def)
qed

lemma fixed_text_single_lines:
  assumes "distinct (map v_line vs)" and "list_all (fix_ok lines) vs"
    and "\<And>v t. v \<in> set vs \<Longrightarrow> v_fixed_code v = Some t \<Longrightarrow> 10 \<notin> set t"
  shows "length (fixed_text lines vs) = length lines"
    and "v \<in> set vs \<Longrightarrow> v_fixed_code v = Some (fixed_text lines vs ! nat (v_line v - 1))"
    and "i < length lines \<Longrightarrow> (\<And>v. v \<in> set vs \<Longrightarrow> v_line v \<noteq> int i + 1) \<Longrightarrow>
         fixed_text lines vs ! i = lines ! i"
proof -
  let ?g = "\<lambda>(i, l). case find (\<lambda>v. v_line v = int i + 1) vs of
                        None \<Rightarrow> l
                      | Some v \<Rightarrow> (case v_fixed_code v of None \<Rightarrow> l | Some t \<Rightarrow> t)"
  have "(case find (\<lambda>v. v_line v = int i + 1) vs of
           None \<Rightarrow> [l]
         | Some v \<Rightarrow> (case v_fixed_code v of None \<Rightarrow> [l] | Some t \<Rightarrow> split_nl t))
        = [?g (i, l)]" for i l
  proof (cases "find (\<lambda>v. v_line v = int i + 1) vs")
    case None
    then show ?thesis by simp
  next
    case (Some v)
    then have "v \<in> set vs" by (auto dest: find_SomeD)
    with assms(3) Some show ?thesis by (cases "v_fixed_code v") (simp_all add: split_nl_single)
  qed
  then have "(\<lambda>(i, l). case find (\<lambda>v. v_line v = int i + 1) vs of
                 None \<Rightarrow> [l]
               | Some v \<Rightarrow> (case v_fixed_code v of None \<Rightarrow> [l] | Some t \<Rightarrow> split_nl t))
             = (\<lambda>x. [?g x])"
    by (auto simp: fun_eq_iff)
  then have eq: "fixed_text lines vs = map ?g (enumerate 0 lines)"
    by (simp add: fixed_text_def concat_map_singleton)
  show "length (fixed_text lines vs) = length lines" by (simp add: eq)
  show "v_fixed_code v = Some (fixed_text lines vs ! nat (v_line v - 1))" if v: "v \<in> set vs"
  proof -
    from v assms(2) have r: "1 \<le> v_line v" "v_line v \<le> int (length lines)"
      and t: "v_fixed_code v \<noteq> None"
      by (auto simp: list_all_iff fix_ok_def split: option.splits)
    have uniq: "\<And>w. w \<in> set vs \<Longrightarrow> v_line w = v_line v \<Longrightarrow> w = v"
      using assms(1) v by (auto simp: distinct_map inj_on_def)
    obtain w where w: "find (\<lambda>w. v_line w = v_line v) vs = Some w"
      using v by (cases "find (\<lambda>w. v_line w = v_line v) vs") (auto simp: find_None_iff)
    then have "w = v" using uniq by (auto dest: find_SomeD)
    with w r t show ?thesis by (auto simp: eq nth_enumerate_eq)
  qed
  show "fixed_text lines vs ! i = lines ! i"
    if "i < length lines" "\<And>v. v \<in> set vs \<Longrightarrow> v_line v \<noteq> int i + 1"
  proof -
    have "find (\<lambda>v. v_line v = int i + 1) vs = None"
      using that(2) by (auto simp: find_None_iff)
    with that(1) show ?thesis by (simp add: eq nth_enumerate_eq)
  qed
qed


text \<open>
  C2.  When the fixes target distinct lines of the text, each with a replacement,
  \<open>applyFixes\<close> issues one edit per fix, in strictly descending order of line; applied
  one after the other in that order, or all at once, the edits yield the text in which
  every targeted line is replaced by its fix and every other line is kept.  When no
  replacement holds a line break, the text keeps its number of lines, every targeted
  line holds its replacement at its own index and every other line is unchanged.
\<close>

theorem applyFixes_descending:
  assumes "distinct (map v_line vs)"
    and "list_all (fix_ok lines) vs"
    and "autoFix \<or> choice = Some (js ''Apply All'')"
  shows "\<exists>es. applyFixes autoFix choice vs lines = Edited es
           \<and> map e_line es = map (\<lambda>v. nat (v_line v - 1)) (sort_key (\<lambda>v. - v_line v) vs)
           \<and> sorted_wrt (>) (map e_line es)
           \<and> apply_in_order lines es = fixed_text lines vs
           \<and> apply_at_once lines es = fixed_text lines vs
           \<and> ((\<forall>v\<in>set vs. \<forall>t. v_fixed_code v = Some t \<longrightarrow> 10 \<notin> set t) \<longrightarrow>
                length (apply_in_order lines es) = length lines
              \<and> (\<forall>v\<in>set vs. v_fixed_code v = Some (apply_in_order lines es ! nat (v_line v - 1)))
              \<and> (\<forall>i<length lines. (\<forall>v\<in>set vs. v_line v \<noteq> int i + 1) \<longrightarrow>
                    apply_in_order lines es ! i = lines ! i))"
proof -
  let ?s = "sort_key (\<lambda>v. - v_line v) vs"
  let ?es = "map (edit_of lines) ?s"
  have ok: "list_all (fix_ok lines) ?s" using assms(2) by (simp add: list_all_iff)
  have run: "applyFixes autoFix choice vs lines = Edited ?es"
    using assms(3) by (auto simp: applyFixes_def replace_calls_all [OF ok])
  have lines: "map e_line ?es = map (\<lambda>v. nat (v_line v - 1)) ?s"
    by (simp add: edit_of_def)
  have desc: "sorted_wrt (>) (map e_line ?es)"
    using sorted_desc_lines [OF assms(1,2)] by simp
  have inrange: "\<And>e. e \<in> set ?es \<Longrightarrow> e_line e < length lines"
    using assms(2) by (auto simp: list_all_iff fix_ok_def edit_of_def)
  have once: "apply_at_once lines ?es = fixed_text lines vs"
    using at_once_eq_fixed_text [OF ok] fixed_text_sort [OF assms(1)] by simp
  have seq: "apply_in_order lines ?es = fixed_text lines vs"
    using in_order_eq_at_once [OF desc inrange] once by simp
  have single: "length (apply_in_order lines ?es) = length lines
      \<and> (\<forall>v\<in>set vs. v_fixed_code v = Some (apply_in_order lines ?es ! nat (v_line v - 1)))
      \<and> (\<forall>i<length lines. (\<forall>v\<in>set vs. v_line v \<noteq> int i + 1) \<longrightarrow>
            apply_in_order lines ?es ! i = lines ! i)"
    if nl: "\<forall>v\<in>set vs. \<forall>t. v_fixed_code v = Some t \<longrightarrow> 10 \<notin> set t"
  proof -
    have nl': "\<And>v t. v \<in> set vs \<Longrightarrow> v_fixed_code v = Some t \<Longrightarrow> 10 \<notin> set t"
      using nl by simp
    have 1: "length (fixed_text lines vs) = length lines"
      by (rule fixed_text_single_lines(1) [OF assms(1,2) nl'])
    have 2: "v_fixed_code v = Some (fixed_text lines vs ! nat (v_line v - 1))"
      if "v \<in> set vs" for v
      by (rule fixed_text_single_lines(2) [OF assms(1,2) nl' that])
    have 3: "fixed_text lines vs ! i = lines ! i"
      if i: "i < length lines" and h: "\<forall>v\<in>set vs. v_line v \<noteq> int i + 1" for i
    proof (rule fixed_text_single_lines(3) [OF assms(1,2) nl' i])
      fix v
      assume "v \<in> set vs"
      with h show "v_line v \<noteq> int i + 1" by (rule bspec)
    qed
    show ?thesis unfolding seq
    proof (intro conjI ballI allI impI)
      show "length (fixed_text lines vs) = length lines" by (rule 1)
      show "v_fixed_code v = Some (fixed_text lines vs ! nat (v_line v - 1))"
        if "v \<in> set vs" for v using that by (rule 2)
      show "fixed_text lines vs ! i = lines ! i"
        if "i < length lines" "\<forall>v\<in>set vs. v_line v \<noteq> int i + 1" for i
        using that by (rule 3)
    qed
  qed
  show ?thesis
  proof (rule exI [of _ ?es], intro conjI)
    show "applyFixes autoFix choice vs lines = Edited ?es" by (rule run)
    show "map e_line ?es = map (\<lambda>v. nat (v_line v - 1)) ?s" by (rule lines)
    show "sorted_wrt (>) (map e_line ?es)" by (rule desc)
    show "apply_in_order lines ?es = fixed_text lines vs" by (rule seq)
    show "apply_at_once lines ?es = fixed_text lines vs" by (rule once)
    show "(\<forall>v\<in>set vs. \<forall>t. v_fixed_code v = Some t \<longrightarrow> 10 \<notin> set t) \<longrightarrow>
            length (apply_in_order lines ?es) = length lines
          \<and> (\<forall>v\<in>set vs. v_fixed_code v = Some (apply_in_order lines ?es ! nat (v_line v - 1)))
          \<and> (\<forall>i<length lines. (\<forall>v\<in>set vs. v_line v \<noteq> int i + 1) \<longrightarrow>
                apply_in_order lines ?es ! i = lines ! i)"
      using single by (rule impI)
  qed
qed

theorem applyFixes_descending_witness:
  "distinct (map v_line
      [\<lparr>v_type = js ''Eval Usage'', v_severity = High, v_line = 1,
        v_description = js ''d'', v_fixed_code = Some (js ''JSON.parse(a)'')\<rparr>,
       \<lparr>v_type = js ''Eval Usage'', v_severity = High, v_line = 3,
        v_description = js ''d'', v_fixed_code = Some (js ''JSON.parse(b)'')\<rparr>])
   \<and> list_all (fix_ok [js ''eval(a)'', js ''ok'', js ''eval(b)''])
      [\<lparr>v_type = js ''Eval Usage'', v_severity = High, v_line = 1,
        v_description = js ''d'', v_fixed_code = Some (js ''JSON.parse(a)'')\<rparr>,
       \<lparr>v_type = js ''Eval Usage'', v_severity = High, v_line = 3,
        v_description = js ''d'', v_fixed_code = Some (js ''JSON.parse(b)'')\<rparr>]
   \<and> (\<exists>es. applyFixes True None
          [\<lparr>v_type = js ''Eval Usage'', v_severity = High, v_line = 1,
            v_description = js ''d'', v_fixed_code = Some (js ''JSON.parse(a)'')\<rparr>,
           \<lparr>v_type = js ''Eval Usage'', v_severity = High, v_line = 3,
            v_description = js ''d'', v_fixed_code = Some (js ''JSON.parse(b)'')\<rparr>]
          [js ''eval(a)'', js ''ok'', js ''eval(b)''] = Edited es
        \<and> map e_line es = [2, 0]
        \<and> apply_in_order [js ''eval(a)'', js ''ok'', js ''eval(b)''] es
            = [js ''JSON.parse(a)'', js ''ok'', js ''JSON.parse(b)''])"
proof -
  let ?v1 = "\<lparr>v_type = js ''Eval Usage'', v_severity = High, v_line = 1,
        v_description = js ''d'', v_fixed_code = Some (js ''JSON.parse(a)'')\<rparr>"
  let ?v3 = "\<lparr>v_type = js ''Eval Usage'', v_severity = High, v_line = 3,
        v_description = js ''d'', v_fixed_code = Some (js ''JSON.parse(b)'')\<rparr>"
  let ?lines = "[js ''eval(a)'', js ''ok'', js ''eval(b)'']"
  have a: "distinct (map v_line [?v1, ?v3])" by simp
  have b: "list_all (fix_ok ?lines) [?v1, ?v3]" by (simp add: fix_ok_def js_def)
  have c: "True \<or> None = Some (js ''Apply All'')" by simp
  have d: "fixed_text ?lines [?v1, ?v3] = [js ''JSON.parse(a)'', js ''ok'', js ''JSON.parse(b)'']"
    by (simp add: fixed_text_def js_def)
  have e: "map (\<lambda>v. nat (v_line v - 1)) (sort_key (\<lambda>v. - v_line v) [?v1, ?v3]) = [2, 0]"
    by simp
  from applyFixes_descending [OF a b c] show ?thesis
  proof (elim exE conjE)
    fix es
    assume 1: "applyFixes True None [?v1, ?v3] ?lines = Edited es"
      and 2: "map e_line es
              = map (\<lambda>v. nat (v_line v - 1)) (sort_key (\<lambda>v. - v_line v) [?v1, ?v3])"
      and 3: "apply_in_order ?lines es = fixed_text ?lines [?v1, ?v3]"
    have 4: "map e_line es = [2, 0]" using 2 e by (rule trans)
    have 5: "apply_in_order ?lines es = [js ''JSON.parse(a)'', js ''ok'', js ''JSON.parse(b)'']"
      using 3 d by (rule trans)
    have "\<exists>es. applyFixes True None [?v1, ?v3] ?lines = Edited es \<and> map e_line es = [2, 0]
          \<and> apply_in_order ?lines es = [js ''JSON.parse(a)'', js ''ok'', js ''JSON.parse(b)'']"
    proof (intro exI conjI)
      show "applyFixes True None [?v1, ?v3] ?lines = Edited es" by (rule 1)
      show "map e_line es = [2, 0]" by (rule 4)
      show "apply_in_order ?lines es = [js ''JSON.parse(a)'', js ''ok'', js ''JSON.parse(b)'']"
        by (rule 5)
    qed
    with a b show ?thesis by (intro conjI)
  qed
qed

subsection \<open>The fix route\<close>

text \<open>
  C1, as claimed, fails.  For a finding of type \<open>Code Injection\<close> on the line
  \<open>x = eval()\<close> the rule-based fix returns the line as it is and reports success, while
  the line still contains \<open>eval(\<close> and still matches the \<open>eval\<close> pattern.  For a finding
  of a weak hash, the AI-proposed replacement \<open>h = md5(y)\<close> passes \<open>validateFix\<close> and is
  reported as a success, while the weak-hash pattern still matches it.
\<close>

theorem fix_success_without_removal:
  "(case generateRuleBasedFix
           \<lparr>fv_id = js ''v1'', fv_type = js ''Code Injection'', fv_severity = js ''critical'',
            fv_line = 1, fv_description = js ''eval'', fv_suggestedFix = None\<rparr>
           (js ''x = eval()'') (js ''javascript'') of
      Inl e \<Rightarrow> False
    | Inr r \<Rightarrow> r_success r \<and> r_fixedCode r = Some (JStr (js ''x = eval()'')))
   \<and> js_includes (js ''x = eval()'') (js ''eval('')
   \<and> test vp_eval (js ''x = eval()'')
   \<and> (case generateAIFix
           \<lparr>fv_id = js ''v2'', fv_type = js ''Weak Crypto'', fv_severity = js ''medium'',
            fv_line = 1, fv_description = js ''md5'', fv_suggestedFix = None\<rparr>
           (js ''h = md5(x)'') (js ''javascript'')
           (ParsedAs (JObj [(js ''fixedCode'', JStr (js ''h = md5(y)''))])) of
      Inl e \<Rightarrow> False
    | Inr r \<Rightarrow> r_success r \<and> r_fixedCode r = Some (JStr (js ''h = md5(y)'')))
   \<and> test crypto_re (js ''h = md5(y)'')"
  by (simp add: generateRuleBasedFix_def rule_based_line_def array_set_def generateAIFix_def
      validateFix_def vulnerabilityPatterns_def vp_eval_def vp_innerHTML_def vp_password_def
      vp_sqlInjection_def rb_eval_def get_prop_def crypto_re_def re_eval)

text \<open>
  C1, amended.  When the AI response is an object whose \<open>fixedCode\<close> is a string, the
  fix route answers with that code and reports success exactly when \<open>validateFix\<close>
  finds no issue: the code is not blank, its number of lines differs from the
  original's by at most half of the original's, none of the four fixed patterns
  (\<open>eval\<close>, \<open>innerHTML\<close>, \<open>password\<close>, \<open>sqlInjection\<close>) matches it, and it holds no
  markdown fence.
\<close>

theorem generateAIFix_success_iff_valid:
  assumes "get_prop aiResponse ''fixedCode'' = Inr (Some (JStr f))"
  shows "\<exists>r. generateAIFix vulnerability code language (ParsedAs aiResponse) = Inr r
           \<and> r_fixedCode r = Some (JStr f)
           \<and> (r_success r \<longleftrightarrow>
                 \<not> list_all is_space f
               \<and> 2 * \<bar>int (length (split_nl code)) - int (length (split_nl f))\<bar>
                     \<le> int (length (split_nl code))
               \<and> \<not> test vp_eval f \<and> \<not> test vp_innerHTML f
               \<and> \<not> test vp_password f \<and> \<not> test vp_sqlInjection f
               \<and> \<not> js_includes f (js ''```''))"
proof -
  from assms obtain kvs where obj: "aiResponse = JObj kvs"
    by (cases aiResponse) (auto simp: get_prop_def)
  obtain issues where v: "validateFix (Some (JStr f)) code = Inr issues"
    by (simp add: validateFix_def Let_def)
  have valid: "issues = [] \<longleftrightarrow>
       \<not> list_all is_space f
     \<and> 2 * \<bar>int (length (split_nl code)) - int (length (split_nl f))\<bar> \<le> int (length (split_nl code))
     \<and> \<not> test vp_eval f \<and> \<not> test vp_innerHTML f
     \<and> \<not> test vp_password f \<and> \<not> test vp_sqlInjection f
     \<and> \<not> js_includes f (js ''```'')"
    using v by (auto simp: validateFix_def vulnerabilityPatterns_def Let_def split: if_splits)
  have "generateAIFix vulnerability code language (ParsedAs aiResponse)
        = Inr \<lparr>r_success = (length issues = 0), r_fixedCode = Some (JStr f),
               r_explanation = map_of (rev kvs) (js ''explanation''),
               r_confidence = map_of (rev kvs) (js ''confidence''),
               r_changes = map_of (rev kvs) (js ''changes'')\<rparr>"
    using assms v obj by (simp add: generateAIFix_def get_prop_def)
  with valid show ?thesis by simp
qed

theorem generateAIFix_success_iff_valid_witness:
  "get_prop (JObj [(js ''fixedCode'', JStr (js ''x = JSON.parse(s)'')), (js ''confidence'', JNum 90)])
      ''fixedCode'' = Inr (Some (JStr (js ''x = JSON.parse(s)'')))
   \<and> (\<exists>r. generateAIFix
              \<lparr>fv_id = js ''v1'', fv_type = js ''Code Injection'', fv_severity = js ''critical'',
               fv_line = 1, fv_description = js ''eval'', fv_suggestedFix = None\<rparr>
              (js ''x = eval(s)'') (js ''javascript'')
              (ParsedAs (JObj [(js ''fixedCode'', JStr (js ''x = JSON.parse(s)'')),
                               (js ''confidence'', JNum 90)])) = Inr r
           \<and> r_success r \<and> \<not> test vp_eval (js ''x = JSON.parse(s)''))"
proof -
  let ?j = "JObj [(js ''fixedCode'', JStr (js ''x = JSON.parse(s)'')), (js ''confidence'', JNum 90)]"
  have h: "get_prop ?j ''fixedCode'' = Inr (Some (JStr (js ''x = JSON.parse(s)'')))"
    by (simp add: get_prop_def js_eq_iff)
  have ok: "\<not> list_all is_space (js ''x = JSON.parse(s)'')
     \<and> 2 * \<bar>int (length (split_nl (js ''x = eval(s)''))) - int (length (split_nl (js ''x = JSON.parse(s)'')))\<bar>
         \<le> int (length (split_nl (js ''x = eval(s)'')))
     \<and> \<not> test vp_eval (js ''x = JSON.parse(s)'') \<and> \<not> test vp_innerHTML (js ''x = JSON.parse(s)'')
     \<and> \<not> test vp_password (js ''x = JSON.parse(s)'') \<and> \<not> test vp_sqlInjection (js ''x = JSON.parse(s)'')
     \<and> \<not> js_includes (js ''x = JSON.parse(s)'') (js ''```'')"
    by (simp add: vp_eval_def vp_innerHTML_def vp_password_def vp_sqlInjection_def re_eval)
  from generateAIFix_success_iff_valid [OF h, of
      "\<lparr>fv_id = js ''v1'', fv_type = js ''Code Injection'', fv_severity = js ''critical'',
        fv_line = 1, fv_description = js ''eval'', fv_suggestedFix = None\<rparr>"
      "js ''x = eval(s)''" "js ''javascript''"] ok h
  show ?thesis by blast
qed

text \<open>
  C8.  A fix request of a type outside the \<open>switch\<close> whose line is 3, for a text of one
  line, is answered with success: nothing detects the stale line, and the fixed code is
  the text followed by an empty line, the comment and the word \<open>undefined\<close>.  In
  \<open>applyFixes\<close> a fix whose line lies beyond the text is skipped and nothing reports a
  failure.
\<close>

theorem stale_line_reported_fixed:
  "(case generateRuleBasedFix
           \<lparr>fv_id = js ''v1'', fv_type = js ''Insecure Randomness'', fv_severity = js ''low'',
            fv_line = 3, fv_description = js ''weak random'', fv_suggestedFix = None\<rparr>
           (js ''let x = 1'') (js ''javascript'') of
      Inl e \<Rightarrow> False
    | Inr r \<Rightarrow> r_success r \<and>
        r_fixedCode r = Some (JStr (js ''let x = 1'' @ [10, 10]
                          @ js ''// TODO: Fix security issue - weak random'' @ [10] @ js ''undefined'')))
   \<and> applyFixes True None
        [\<lparr>v_type = js ''Eval Usage'', v_severity = High, v_line = 3,
          v_description = js ''Use of eval() function is dangerous'',
          v_fixed_code = Some (js ''JSON.parse(x)'')\<rparr>] [js ''let x = 1''] = Edited []"
  by (simp add: generateRuleBasedFix_def rule_based_line_def array_set_def applyFixes_def js_def)

subsection \<open>Enrichment\<close>







lemma analyzeWithAI_returns: "\<exists>a. AIService_analyzeWithAI code issue language = Inr a"
  by (simp add: AIService_analyzeWithAI_def)






end
